theory Spec2Isabelle
  imports Complex_Main "HOL-Library.Multiset" "HOL-Library.AList" "HOL-Library.Sublist"
    "HOL-Library.Word"
begin

unbundle bit_operations_syntax

section \<open>Python strings\<close>

text \<open>
  A Python \<open>str\<close> is a sequence of Unicode code points, and \<open>len\<close> counts code points.
  The model is a list of code points; \<open>ascii\<close> writes an ASCII literal.
\<close>

type_synonym pystr = "nat list"

definition ascii :: "string \<Rightarrow> pystr" where
  "ascii s = map of_char s"

text \<open>
  \<open>str.isspace\<close> per code point: the complete whitespace set of CPython's Unicode
  database (the same set is used by \<open>str.strip()\<close>, \<open>str.split()\<close> and the regular
  expression class \<open>\s\<close>).
\<close>

definition isspace :: "nat \<Rightarrow> bool" where
  "isspace c \<longleftrightarrow>
     (9 \<le> c \<and> c \<le> 13) \<or> (28 \<le> c \<and> c \<le> 32) \<or> c = 133 \<or> c = 160 \<or> c = 5760 \<or>
     (8192 \<le> c \<and> c \<le> 8202) \<or> c = 8232 \<or> c = 8233 \<or> c = 8239 \<or> c = 8287 \<or> c = 12288"

definition py_strip :: "pystr \<Rightarrow> pystr" where
  "py_strip s = rev (dropWhile isspace (rev (dropWhile isspace s)))"

text \<open>
  \<open>str.lower()\<close> per code point. The table is that of CPython for the code points below
  U+0100 (Basic Latin and Latin-1 Supplement) and for the combining marks
  U+0300..U+036F (which have no case); every other code point is left as it is.
\<close>

definition lower_cp :: "nat \<Rightarrow> nat" where
  "lower_cp c = (if (65 \<le> c \<and> c \<le> 90) \<or> (192 \<le> c \<and> c \<le> 222 \<and> c \<noteq> 215) then c + 32 else c)"

definition py_lower :: "pystr \<Rightarrow> pystr" where
  "py_lower s = map lower_cp s"

text \<open>\<open>s.split()\<close>: the maximal runs of non-whitespace; \<open>w\<close> is the run being read.\<close>

fun split_ws :: "pystr \<Rightarrow> pystr \<Rightarrow> pystr list" where
  "split_ws w [] = (if w = [] then [] else [w])"
| "split_ws w (c # cs) =
     (if isspace c then (if w = [] then split_ws [] cs else w # split_ws [] cs)
      else split_ws (w @ [c]) cs)"

definition py_split :: "pystr \<Rightarrow> pystr list" where
  "py_split s = split_ws [] s"

text \<open>\<open>s.split(sep)\<close> for a one-character separator: empty pieces are kept.\<close>

fun split_sep :: "nat \<Rightarrow> pystr \<Rightarrow> pystr \<Rightarrow> pystr list" where
  "split_sep sep w [] = [w]"
| "split_sep sep w (c # cs) =
     (if c = sep then w # split_sep sep [] cs else split_sep sep (w @ [c]) cs)"

definition py_split_on :: "nat \<Rightarrow> pystr \<Rightarrow> pystr list" where
  "py_split_on sep s = split_sep sep [] s"

text \<open>
  \<open>s.replace(old, new)\<close> for a non-empty \<open>old\<close>: left to right, non-overlapping. The
  counter is the number of characters of a match still to be skipped.
\<close>

fun replace_from :: "pystr \<Rightarrow> pystr \<Rightarrow> nat \<Rightarrow> pystr \<Rightarrow> pystr" where
  "replace_from old new k [] = []"
| "replace_from old new k (c # cs) =
     (if 0 < k then replace_from old new (k - 1) cs
      else if prefix old (c # cs) then new @ replace_from old new (length old - 1) cs
      else c # replace_from old new 0 cs)"

definition py_replace :: "pystr \<Rightarrow> pystr \<Rightarrow> pystr \<Rightarrow> pystr" where
  "py_replace old new s = replace_from old new 0 s"

definition startswith :: "pystr \<Rightarrow> pystr \<Rightarrow> bool" where
  "startswith s p = prefix p s"

text \<open>\<open>sep.join(xs)\<close>.\<close>

fun py_join :: "pystr \<Rightarrow> pystr list \<Rightarrow> pystr" where
  "py_join sep [] = []"
| "py_join sep [x] = x"
| "py_join sep (x # y # ys) = x @ sep @ py_join sep (y # ys)"

section \<open>The normalizer (\<open>normalize_spanish_name\<close>)\<close>

text \<open>
  \<open>unicodedata.normalize('NFD', s)\<close> replaces every code point by its full canonical
  decomposition and then puts every run of combining marks into canonical order (a
  stable sort by combining class). The tables are those of the Unicode database for
  the code points below U+0100 and the block U+0300..U+036F; other code points are
  taken to have no decomposition and combining class 0.
\<close>

definition canonical_decomposition :: "(nat \<times> nat list) list" where
  "canonical_decomposition =
    [(192, [65, 768]), (193, [65, 769]), (194, [65, 770]), (195, [65, 771]),
     (196, [65, 776]), (197, [65, 778]), (199, [67, 807]), (200, [69, 768]),
     (201, [69, 769]), (202, [69, 770]), (203, [69, 776]), (204, [73, 768]),
     (205, [73, 769]), (206, [73, 770]), (207, [73, 776]), (209, [78, 771]),
     (210, [79, 768]), (211, [79, 769]), (212, [79, 770]), (213, [79, 771]),
     (214, [79, 776]), (217, [85, 768]), (218, [85, 769]), (219, [85, 770]),
     (220, [85, 776]), (221, [89, 769]),
     (224, [97, 768]), (225, [97, 769]), (226, [97, 770]), (227, [97, 771]),
     (228, [97, 776]), (229, [97, 778]), (231, [99, 807]), (232, [101, 768]),
     (233, [101, 769]), (234, [101, 770]), (235, [101, 776]), (236, [105, 768]),
     (237, [105, 769]), (238, [105, 770]), (239, [105, 776]), (241, [110, 771]),
     (242, [111, 768]), (243, [111, 769]), (244, [111, 770]), (245, [111, 771]),
     (246, [111, 776]), (249, [117, 768]), (250, [117, 769]), (251, [117, 770]),
     (252, [117, 776]), (253, [121, 769]), (255, [121, 776]),
     (832, [768]), (833, [769]), (835, [787]), (836, [776, 769])]"

definition decompose :: "nat \<Rightarrow> nat list" where
  "decompose c = (case map_of canonical_decomposition c of Some ds \<Rightarrow> ds | None \<Rightarrow> [c])"

text \<open>\<open>unicodedata.combining(c)\<close>: the canonical combining class, 0 for a starter.\<close>

definition combining :: "nat \<Rightarrow> nat" where
  "combining c =
    (if c < 768 \<or> 879 < c then 0
     else if c \<le> 788 then 230 else if c = 789 then 232 else if c \<le> 793 then 220
     else if c = 794 then 232 else if c = 795 then 216 else if c \<le> 800 then 220
     else if c \<le> 802 then 202 else if c \<le> 806 then 220 else if c \<le> 808 then 202
     else if c \<le> 819 then 220 else if c \<le> 824 then 1 else if c \<le> 828 then 220
     else if c \<le> 836 then 230 else if c = 837 then 240 else if c = 838 then 230
     else if c \<le> 841 then 220 else if c \<le> 844 then 230 else if c \<le> 846 then 220
     else if c = 847 then 0 else if c \<le> 850 then 230 else if c \<le> 854 then 220
     else if c = 855 then 230 else if c = 856 then 232 else if c \<le> 858 then 220
     else if c = 859 then 230 else if c = 860 then 233 else if c \<le> 862 then 234
     else if c = 863 then 233 else if c \<le> 865 then 234 else if c = 866 then 233
     else 230)"

text \<open>Canonical ordering; \<open>run\<close> holds the combining marks read since the last starter.\<close>

fun canonical_order :: "pystr \<Rightarrow> pystr \<Rightarrow> pystr" where
  "canonical_order run [] = sort_key combining run"
| "canonical_order run (c # cs) =
     (if combining c = 0 then sort_key combining run @ c # canonical_order [] cs
      else canonical_order (run @ [c]) cs)"

definition nfd :: "pystr \<Rightarrow> pystr" where
  "nfd s = canonical_order [] (concat (map decompose s))"

text \<open>
  \<^verbatim>\<open>
  def normalize_spanish_name(name):
      normalized = unicodedata.normalize('NFD', name)
      ascii_name = ''.join(c for c in normalized if not unicodedata.combining(c))
      return ascii_name.lower().strip()
  \<close>
\<close>

definition normalize_spanish_name :: "pystr \<Rightarrow> pystr" where
  "normalize_spanish_name name =
     (let normalized = nfd name;
          ascii_name = filter (\<lambda>c. combining c = 0) normalized
      in py_strip (py_lower ascii_name))"

section \<open>Slugs of free-text questions (\<open>simplify_question\<close>)\<close>

text \<open>The decorative symbols of the source, code point by code point as the file has them.\<close>

definition emojis :: "pystr list" where
  "emojis =
    [[240, 376, 8216, 164], [226, 339, 8240, 239, 184], [240, 376, 8220, 178],
     [240, 376, 381, 8220], [240, 376, 8216, 8249], [240, 376, 164, 8221],
     [240, 376, 8216, 169, 226, 8364, 240, 376, 8217, 187], [240, 376, 8217, 172],
     [240, 376, 8220], [240, 376, 164, 8211], [240, 376, 8482, 338]]"

text \<open>
  The class \<open>\w\<close> of the \<open>re\<close> module: alphanumeric code points and the underscore, for the
  code points below U+0100; the code points above are taken to be symbols.
\<close>

definition is_word_cp :: "nat \<Rightarrow> bool" where
  "is_word_cp c \<longleftrightarrow>
     (48 \<le> c \<and> c \<le> 57) \<or> (65 \<le> c \<and> c \<le> 90) \<or> c = 95 \<or> (97 \<le> c \<and> c \<le> 122) \<or>
     c = 170 \<or> c = 178 \<or> c = 179 \<or> c = 181 \<or> c = 185 \<or> c = 186 \<or>
     (188 \<le> c \<and> c \<le> 190) \<or> (192 \<le> c \<and> c \<le> 214) \<or> (216 \<le> c \<and> c \<le> 246) \<or>
     (248 \<le> c \<and> c \<le> 255)"

text \<open>The truncation loop: \<open>total_length\<close> is threaded, \<open>break\<close> ends the recursion.\<close>

fun shorten :: "pystr list \<Rightarrow> nat \<Rightarrow> pystr list" where
  "shorten [] total_length = []"
| "shorten (word # words) total_length =
     (if total_length + length word \<le> 25
      then word # shorten words (total_length + length word + 1)
      else [])"

text \<open>\<open>re.sub(r'\s+', '_', s)\<close>: every maximal run of whitespace becomes one underscore.\<close>

fun sub_space_runs :: "bool \<Rightarrow> pystr \<Rightarrow> pystr" where
  "sub_space_runs in_run [] = []"
| "sub_space_runs in_run (c # cs) =
     (if isspace c then (if in_run then sub_space_runs True cs else 95 # sub_space_runs True cs)
      else c # sub_space_runs False cs)"

definition simplify_question :: "pystr \<Rightarrow> pystr" where
  "simplify_question question =
     (let q1 = fold (\<lambda>emoji q. py_replace emoji [] q) emojis question;
          q2 = py_strip q1;
          q3 = (if 30 < length q2
                then (let words = py_split q2;
                          shortened = shorten words 0;
                          q = py_join (ascii '' '') shortened
                      in if length shortened < length words then q @ ascii ''...'' else q)
                else q2);
          q4 = filter (\<lambda>c. is_word_cp c \<or> isspace c) q3;
          q5 = sub_space_runs False q4
      in py_lower q5)"

section \<open>Record extraction (\<open>read_csv_file\<close>)\<close>

datatype category = Nombre | Correo | Telegram | Carrera | Generacion

text \<open>A dict with string keys and values, in insertion order; \<open>d[k] = v\<close> is \<open>AList.update\<close>.\<close>

type_synonym dict = "(pystr \<times> pystr) list"

text \<open>
  One extracted row. \<open>contact p c\<close> is \<open>person.get(c, "")\<close>: a category without a column
  has no key in the Python dict, and every reader of the dict defaults it to \<open>""\<close>.
  \<open>nombre_normalized\<close> is the key that the filtering pass adds.
\<close>

record person =
  contact :: "category \<Rightarrow> pystr"
  nombre_normalized :: "pystr option"
  form :: pystr
  essay_responses :: dict
  source :: pystr

definition no_telegram_indicators :: "pystr list" where
  "no_telegram_indicators =
     [ascii ''no tengo'', ascii ''no'', ascii ''none'', ascii ''0'', ascii ''n/a'', ascii ''-'']"

text \<open>
  The handling of a non-empty messaging handle; the source has the same lines twice, in
  \<open>read_csv_file\<close> (on \<open>value\<close>) and in the merge loop of \<open>process_csv_files\<close> (on
  \<open>new_value\<close>).
\<close>

definition telegram_handle :: "pystr \<Rightarrow> pystr" where
  "telegram_handle v =
     (if list_ex (\<lambda>indicator. py_strip (py_lower v) = indicator) no_telegram_indicators
      then []
      else (let v' = py_replace (ascii '' '') [] v
            in if startswith v' (ascii ''@'') then v' else ascii ''@'' @ v'))"

text \<open>The value stored for a contact column; the cell is \<open>None\<close> when the row is short.\<close>

definition contact_value :: "category \<Rightarrow> pystr option \<Rightarrow> pystr" where
  "contact_value cat cell =
     (let v = (case cell of None \<Rightarrow> [] | Some s \<Rightarrow> if s \<noteq> [] then py_strip s else [])
      in if cat = Telegram \<and> v \<noteq> [] then telegram_handle v else v)"

text \<open>\<open>pattern in col\<close>.\<close>

fun contains :: "pystr \<Rightarrow> pystr \<Rightarrow> bool" where
  "contains [] pat = (pat = [])"
| "contains (c # cs) pat = (prefix pat (c # cs) \<or> contains cs pat)"

definition contact_patterns :: "(category \<times> pystr list) list" where
  "contact_patterns =
    [(Nombre, [ascii ''Nombre'', [240, 376, 8216, 164], ascii ''Nombre Completo'',
               ascii ''Nombre completo'']),
     (Correo, [ascii ''Correo'', [226, 339, 8240, 239, 184], ascii ''Correo UC'',
               ascii ''Direcci'' @ [195, 179] @ ascii ''n de correo electr'' @ [195, 179]
                 @ ascii ''nico'']),
     (Telegram, [ascii ''Telegram'', [240, 376, 8220, 178]]),
     (Carrera, [ascii ''Carrera'', ascii ''Grado'', [240, 376, 381, 8220],
                ascii ''Carrera/Grado'']),
     (Generacion, [ascii ''Generaci'' @ [195, 179] @ ascii ''n'', ascii ''Generacion'',
                   [240, 376, 8216, 8249]])]"

definition admin_patterns :: "pystr list" where
  "admin_patterns =
    [ascii ''marca temporal'', ascii ''estado'', ascii ''prioridad'',
     ascii ''puntuaci'' @ [195, 179] @ ascii ''n'', ascii ''observaciones'',
     ascii ''salvageable'', ascii ''razones'', ascii ''promedio'', ascii ''notas'',
     ascii ''preferencia'',
     ascii ''direcci'' @ [195, 179] @ ascii ''n de correo electr'' @ [195, 179] @ ascii ''nico'']"

text \<open>
  What \<open>csv.DictReader\<close> gives for a readable file: the header and, per row, the cell
  of every column (\<open>None\<close> where the row is short). Parsing the CSV text itself is the
  library's work and is not modelled.
\<close>

record csv_table =
  fieldnames :: "pystr list"
  rows :: "(pystr \<times> pystr option) list list"

text \<open>
  \<open>contact_mapping\<close>: per category, the first header that contains one of its patterns;
  \<open>contact_columns\<close> is the set of the headers so chosen.
\<close>

definition contact_mapping :: "pystr list \<Rightarrow> (category \<times> pystr) list" where
  "contact_mapping cols =
     List.map_filter
       (\<lambda>(cat, patterns).
          map_option (Pair cat)
            (find (\<lambda>col. list_ex (\<lambda>pattern. contains col pattern) patterns) cols))
       contact_patterns"

definition contact_columns :: "pystr list \<Rightarrow> pystr set" where
  "contact_columns cols = set (map snd (contact_mapping cols))"

definition admin_columns :: "pystr list \<Rightarrow> pystr set" where
  "admin_columns cols =
     set (filter (\<lambda>col. list_ex (\<lambda>pattern. contains (py_lower col) pattern) admin_patterns) cols)"

text \<open>\<open>os.path.basename\<close>: what follows the last slash.\<close>

definition basename :: "pystr \<Rightarrow> pystr" where
  "basename path = rev (takeWhile (\<lambda>c. c \<noteq> 47) (rev path))"

fun read_essays :: "pystr list \<Rightarrow> (pystr \<times> pystr option) list \<Rightarrow> pystr list \<Rightarrow> dict \<Rightarrow> dict" where
  "read_essays cols row [] essays = essays"
| "read_essays cols row (col # rest) essays =
     (if col \<in> contact_columns cols \<or> col \<in> admin_columns cols
      then read_essays cols row rest essays
      else (let short_question = simplify_question col
            in case map_of row col of
                 Some (Some cell) \<Rightarrow>
                   if cell \<noteq> []
                   then read_essays cols row rest (AList.update short_question (py_strip cell) essays)
                   else read_essays cols row rest essays
               | _ \<Rightarrow> read_essays cols row rest essays))"

definition read_row :: "pystr \<Rightarrow> pystr list \<Rightarrow> (pystr \<times> pystr option) list \<Rightarrow> person" where
  "read_row filename cols row =
     \<lparr> contact = (\<lambda>cat. case map_of (contact_mapping cols) cat of
                         None \<Rightarrow> []
                       | Some col \<Rightarrow> (case map_of row col of
                                       None \<Rightarrow> []
                                     | Some cell \<Rightarrow> contact_value cat cell)),
       nombre_normalized = None,
       form = basename filename,
       essay_responses = read_essays cols row cols [],
       source = filename \<rparr>"

text \<open>
  A file that cannot be read or parsed raises inside the \<open>try\<close>, and the function
  returns the empty list: that is the file \<open>None\<close>.
\<close>

definition read_csv_file :: "(pystr \<Rightarrow> csv_table option) \<Rightarrow> pystr \<Rightarrow> person list" where
  "read_csv_file fs filename =
     (case fs filename of
        None \<Rightarrow> []
      | Some table \<Rightarrow> map (read_row filename (fieldnames table)) (rows table))"

section \<open>Grouping and merging (\<open>process_csv_files\<close>)\<close>

datatype error = IndexError | UnicodeEncodeError | UnicodeDecodeError | OverflowError

text \<open>The filtering pass: a record with no name, email or handle is dropped.\<close>

fun filter_people :: "person list \<Rightarrow> person list" where
  "filter_people [] = []"
| "filter_people (p # ps) =
     (let email = py_strip (contact p Correo);
          nombre = py_strip (contact p Nombre);
          telegram = py_strip (contact p Telegram)
      in if email \<noteq> [] \<or> nombre \<noteq> [] \<or> telegram \<noteq> []
         then (if nombre \<noteq> []
               then p\<lparr>nombre_normalized := Some (normalize_spanish_name nombre)\<rparr>
               else p) # filter_people ps
         else filter_people ps)"

text \<open>The key under which a record is filed in \<open>email_groups\<close>.\<close>

definition group_key :: "person \<Rightarrow> pystr" where
  "group_key p =
     (let email = py_lower (py_strip (contact p Correo))
      in if email \<noteq> [] then email
         else (let name = py_lower (py_strip (case nombre_normalized p of
                                               Some n \<Rightarrow> n
                                             | None \<Rightarrow> contact p Nombre));
                   telegram = py_lower (py_strip (contact p Telegram))
               in ascii ''no_email_'' @ name @ ascii ''_'' @ telegram))"

text \<open>
  \<open>email_groups[key].append(person)\<close>, with a new empty list first when the key is
  new; the dict keeps its keys in insertion order.
\<close>

fun add_to_group :: "pystr \<Rightarrow> person \<Rightarrow> (pystr \<times> person list) list \<Rightarrow> (pystr \<times> person list) list"
  where
  "add_to_group key p [] = [(key, [p])]"
| "add_to_group key p ((k, g) # rest) =
     (if k = key then (k, g @ [p]) # rest else (k, g) # add_to_group key p rest)"

definition group_people :: "person list \<Rightarrow> (pystr \<times> person list) list" where
  "group_people people = foldl (\<lambda>email_groups p. add_to_group (group_key p) p email_groups) [] people"

section \<open>Attendance records\<close>

record stats =
  total_sessions :: nat
  attended :: nat
  justified :: nat
  attendance_rate :: rat

record attendance_record =
  course :: pystr
  sessions_of :: dict
  stats :: stats

section \<open>The merged person\<close>

text \<open>
  \<open>sources\<close> is \<open>list(set(...))\<close> in the source, a list without duplicates in an order
  that Python does not specify; \<open>attendance\<close> is \<open>None\<close> while the dict has no such key.
\<close>

record canonical =
  identity :: "category \<Rightarrow> pystr"
  merged_nombre_normalized :: pystr
  postulaciones :: "dict list"
  sources :: "pystr list"
  attendance :: "attendance_record list option"

text \<open>One pass of the innermost loop body: the new value of \<open>merged[field]\<close>.\<close>

definition merge_value :: "category \<Rightarrow> pystr \<Rightarrow> pystr \<Rightarrow> pystr" where
  "merge_value field current raw =
     (let new_value = (if field = Telegram \<and> raw \<noteq> [] then telegram_handle raw else raw)
      in if current = [] \<and> new_value \<noteq> [] then new_value
         else if current \<noteq> [] \<and> new_value \<noteq> [] \<and> length current < length new_value
              then new_value
         else current)"

definition merge_contact :: "person \<Rightarrow> (category \<Rightarrow> pystr) \<Rightarrow> (category \<Rightarrow> pystr)" where
  "merge_contact p merged =
     fold (\<lambda>field m. m(field := merge_value field (m field) (contact p field)))
       [Nombre, Correo, Telegram, Carrera, Generacion] merged"

definition postulacion_of :: "person \<Rightarrow> dict" where
  "postulacion_of p =
     fold (\<lambda>(question, answer) postulacion. AList.update question answer postulacion)
       (essay_responses p) [(ascii ''form'', basename (source p))]"

definition merge_group :: "person list \<Rightarrow> error + canonical" where
  "merge_group grp =
     (case grp of
        [] \<Rightarrow> Inl IndexError
      | first # _ \<Rightarrow>
          Inr \<lparr> identity = fold merge_contact grp (contact first),
                merged_nombre_normalized =
                  (case nombre_normalized first of
                     Some n \<Rightarrow> n
                   | None \<Rightarrow> normalize_spanish_name (contact first Nombre)),
                postulaciones = filter (\<lambda>postulacion. 1 < length postulacion)
                                  (map postulacion_of grp),
                sources = remdups (map source grp),
                attendance = None \<rparr>)"

text \<open>The groups with their keys, each merged; the result list drops the keys.\<close>

definition merged_groups :: "person list \<Rightarrow> (pystr \<times> (error + canonical)) list" where
  "merged_groups all_people =
     map (\<lambda>(key, grp). (key, merge_group grp)) (group_people (filter_people all_people))"

fun collect :: "(error + 'a) list \<Rightarrow> error + 'a list" where
  "collect [] = Inr []"
| "collect (Inl e # rs) = Inl e"
| "collect (Inr x # rs) = (case collect rs of Inl e \<Rightarrow> Inl e | Inr xs \<Rightarrow> Inr (x # xs))"

definition all_people :: "(pystr \<Rightarrow> csv_table option) \<Rightarrow> pystr list \<Rightarrow> person list" where
  "all_people fs filenames = concat (map (read_csv_file fs) filenames)"

definition process_csv_files :: "(pystr \<Rightarrow> csv_table option) \<Rightarrow> pystr list \<Rightarrow> error + canonical list"
  where
  "process_csv_files fs filenames = collect (map snd (merged_groups (all_people fs filenames)))"

section \<open>Attendance tables (\<open>parse_markdown_table\<close>)\<close>

definition has_pipe :: "pystr \<Rightarrow> bool" where
  "has_pipe line \<longleftrightarrow> 124 \<in> set line"

text \<open>\<open>[cell.strip() for cell in line.split('|') if cell.strip()]\<close>\<close>

definition table_cells :: "pystr \<Rightarrow> pystr list" where
  "table_cells line = filter (\<lambda>cell. cell \<noteq> []) (map py_strip (py_split_on 124 line))"

text \<open>
  The inner loop over \<open>j\<close> of one session row: \<open>cells[j]\<close> goes to \<open>header[j]\<close> while
  \<open>j < len(header)\<close>, for \<open>j \<ge> 1\<close>.
\<close>

definition session_data_of :: "pystr list \<Rightarrow> pystr list \<Rightarrow> dict" where
  "session_data_of header cells =
     fold (\<lambda>(person_name, attendance) d.
             if attendance \<noteq> [] then AList.update person_name attendance d else d)
       (zip (tl header) (tl cells)) []"

fun read_sessions :: "pystr list \<Rightarrow> pystr list \<Rightarrow> (pystr \<times> dict) list \<Rightarrow> (pystr \<times> dict) list" where
  "read_sessions header [] sessions = sessions"
| "read_sessions header (raw # rest) sessions =
     (let line = py_strip raw
      in if line = [] \<or> \<not> has_pipe line then read_sessions header rest sessions
         else (case table_cells line of
                 [] \<Rightarrow> read_sessions header rest sessions
               | session_name # _ \<Rightarrow>
                   read_sessions header rest
                     (AList.update session_name (session_data_of header (table_cells line))
                        sessions)))"

text \<open>
  \<open>round(x, 2)\<close>. Python computes \<open>x\<close> in binary floating point; the model computes the
  quotient exactly and rounds it to hundredths, ties to the even hundredth.
\<close>

definition py_round2 :: "rat \<Rightarrow> rat" where
  "py_round2 x =
     (let y = x * 100; n = \<lfloor>y\<rfloor>; d = y - of_int n
      in of_int (if d < 1 / 2 then n else if 1 / 2 < d then n + 1
                 else if even n then n else n + 1) / 100)"

definition person_sessions :: "pystr \<Rightarrow> (pystr \<times> dict) list \<Rightarrow> dict" where
  "person_sessions person_name sessions =
     fold (\<lambda>(session_name, session_data) d.
             case map_of session_data person_name of
               Some status \<Rightarrow> AList.update session_name status d
             | None \<Rightarrow> d)
       sessions []"

definition person_record :: "pystr \<Rightarrow> (pystr \<times> dict) list \<Rightarrow> pystr \<Rightarrow> attendance_record" where
  "person_record course_name sessions person_name =
     (let own = person_sessions person_name sessions;
          total = length sessions;
          att = length (filter (\<lambda>s. s \<in> set [ascii ''A'', ascii ''X'']) (map snd own));
          jus = length (filter (\<lambda>s. s = ascii ''J'') (map snd own))
      in \<lparr> course = course_name,
           sessions_of = own,
           stats = \<lparr> total_sessions = total,
                     attended = att,
                     justified = jus,
                     attendance_rate =
                       (if total \<noteq> 0 then py_round2 (of_nat att / of_nat total * 100) else 0) \<rparr> \<rparr>)"

text \<open>
  The argument \<open>lines\<close> is what \<open>f.readlines()\<close> returns. \<open>lines[0]\<close> raises on an empty
  file.
\<close>

definition parse_markdown_table ::
    "pystr \<Rightarrow> pystr list \<Rightarrow> error + (pystr \<times> attendance_record) list" where
  "parse_markdown_table file_path lines =
     (let table = (if list_ex has_pipe lines then dropWhile (\<lambda>l. \<not> has_pipe l) lines else lines)
      in case table of
           [] \<Rightarrow> Inl IndexError
         | first # _ \<Rightarrow>
             (let header = table_cells first;
                  sessions = read_sessions header (drop 2 table) [];
                  course_name = py_replace (ascii ''.md'') [] (basename file_path)
              in Inr (fold (\<lambda>person_name by_person.
                              AList.update person_name
                                (person_record course_name sessions person_name) by_person)
                        (tl header) [])))"

section \<open>Name matching (\<open>match_person_name\<close>)\<close>

definition common_words :: "pystr set" where
  "common_words =
     set [ascii ''de'', ascii ''del'', ascii ''la'', ascii ''las'', ascii ''los'', ascii ''y'',
          ascii ''e'', ascii ''don'', [100, 111, 195, 177, 97], ascii ''dr'', ascii ''dra'']"

text \<open>
  The word set of a normalized name as the matcher uses it: the words that are not
  common words, or every word when that leaves nothing.
\<close>

definition word_set :: "pystr \<Rightarrow> pystr set" where
  "word_set normalized =
     (let words = py_split normalized;
          filtered_words = filter (\<lambda>word. word \<notin> common_words) words
      in if filtered_words \<noteq> [] then set filtered_words else set words)"

text \<open>
  The loop over the candidates with the final threshold test; \<open>score\<close> is the quotient
  of two small integers, computed exactly.
\<close>

fun match_loop ::
    "pystr \<Rightarrow> pystr \<Rightarrow> pystr set \<Rightarrow> nat \<Rightarrow> canonical list \<Rightarrow> nat option \<Rightarrow> rat \<Rightarrow> nat option"
  where
  "match_loop name_lower name_normalized name_words idx [] best_match best_match_score =
     (if 1 / 2 \<le> best_match_score \<or> (0 < best_match_score \<and> card name_words \<le> 2)
      then best_match else None)"
| "match_loop name_lower name_normalized name_words idx (person # rest) best_match
       best_match_score =
     (let person_name = identity person Nombre;
          person_normalized = normalize_spanish_name person_name;
          person_words = word_set person_normalized
      in if name_lower = py_strip (py_lower person_name) \<or> name_normalized = person_normalized
         then Some idx
         else (let intersection = card (name_words \<inter> person_words);
                   union = card (name_words \<union> person_words);
                   score = of_nat intersection / of_nat union
               in if 0 < union \<and> 0 < intersection \<and> best_match_score < score
                  then match_loop name_lower name_normalized name_words (idx + 1) rest
                         (Some idx) score
                  else match_loop name_lower name_normalized name_words (idx + 1) rest
                         best_match best_match_score))"

definition match_person_name :: "pystr \<Rightarrow> canonical list \<Rightarrow> nat option" where
  "match_person_name name people_data =
     match_loop (py_strip (py_lower name)) (normalize_spanish_name name)
       (word_set (normalize_spanish_name name)) 0 people_data None 0"

section \<open>Attaching attendance (\<open>process_attendance_files\<close>)\<close>

text \<open>
  An attendance record has no \<open>"source"\<close> key, so the branch of the source that copies
  it never runs; a merged person always has \<open>"sources"\<close>.
\<close>

definition update_json_with_attendance ::
    "canonical list \<Rightarrow> (pystr \<times> attendance_record) list \<Rightarrow> canonical list" where
  "update_json_with_attendance people_data attendance_data =
     fold (\<lambda>(name, att) people.
             case match_person_name name people of
               None \<Rightarrow> people
             | Some person_idx \<Rightarrow>
                 people[person_idx :=
                   (people ! person_idx)\<lparr>attendance :=
                     Some ((case attendance (people ! person_idx) of
                              None \<Rightarrow> [] | Some xs \<Rightarrow> xs) @ [att])\<rparr>])
       attendance_data people_data"

definition add_file_source ::
    "pystr \<Rightarrow> canonical list \<Rightarrow> (pystr \<times> attendance_record) list \<Rightarrow> canonical list" where
  "add_file_source file_path people_data attendance_data =
     fold (\<lambda>(name, _) people.
             case match_person_name name people of
               None \<Rightarrow> people
             | Some person_idx \<Rightarrow>
                 if file_path \<notin> set (sources (people ! person_idx))
                 then people[person_idx :=
                        (people ! person_idx)\<lparr>sources := sources (people ! person_idx) @ [file_path]\<rparr>]
                 else people)
       attendance_data people_data"

definition endswith :: "pystr \<Rightarrow> pystr \<Rightarrow> bool" where
  "endswith s p = suffix p s"

text \<open>\<open>os.path.join\<close> of two components.\<close>

definition path_join :: "pystr \<Rightarrow> pystr \<Rightarrow> pystr" where
  "path_join a b =
     (if startswith b (ascii ''/'') then b
      else if a = [] \<or> endswith a (ascii ''/'') then a @ b
      else a @ ascii ''/'' @ b)"

fun attendance_loop ::
    "pystr \<Rightarrow> (pystr \<times> pystr list) list \<Rightarrow> canonical list \<Rightarrow> error + canonical list" where
  "attendance_loop attendance_dir [] people_data = Inr people_data"
| "attendance_loop attendance_dir ((filename, lines) # rest) people_data =
     (if endswith filename (ascii ''.md'')
      then (let file_path = path_join attendance_dir filename
            in case parse_markdown_table file_path lines of
                 Inl e \<Rightarrow> Inl e
               | Inr attendance_data \<Rightarrow>
                   attendance_loop attendance_dir rest
                     (add_file_source file_path
                        (update_json_with_attendance people_data attendance_data)
                        attendance_data))
      else attendance_loop attendance_dir rest people_data)"

text \<open>
  The file system as the function sees it: \<open>listing\<close> is \<open>None\<close> when
  \<open>os.path.exists(attendance_dir)\<close> is false, and otherwise the entries of
  \<open>os.listdir\<close>, each with the lines of the file.
\<close>

definition process_attendance_files ::
    "canonical list \<Rightarrow> pystr \<Rightarrow> (pystr \<times> pystr list) list option \<Rightarrow> error + canonical list" where
  "process_attendance_files people_data attendance_dir listing =
     (case listing of
        None \<Rightarrow> Inr people_data
      | Some entries \<Rightarrow> attendance_loop attendance_dir entries people_data)"

section \<open>The file obfuscation utility (\<open>crypt.py\<close>)\<close>

type_synonym byte = "8 word"

text \<open>
  \<open>hashlib\<close> is a library: its two functions are parameters of the model. A SHA-256
  digest is 256 bits, and \<open>digest\<close> gives its 32 bytes, most significant first.
\<close>

record hashlib =
  sha256 :: "byte list \<Rightarrow> 256 word"
  pbkdf2_hmac_sha256 :: "byte list \<Rightarrow> byte list \<Rightarrow> nat \<Rightarrow> byte list"

definition digest :: "256 word \<Rightarrow> byte list" where
  "digest w = map (\<lambda>i. ucast (drop_bit (8 * (31 - i)) w)) [0..<32]"

text \<open>The byte with a given value below 256.\<close>

definition byte_of :: "nat \<Rightarrow> byte" where
  "byte_of n = of_nat n"

text \<open>\<open>str.encode('utf-8')\<close>, which raises on a surrogate.\<close>

definition encode_cp :: "nat \<Rightarrow> error + byte list" where
  "encode_cp c =
     (if c < 128 then Inr [byte_of c]
      else if c < 2048 then Inr [byte_of (192 + c div 64), byte_of (128 + c mod 64)]
      else if c < 65536 then
        (if 55296 \<le> c \<and> c \<le> 57343 then Inl UnicodeEncodeError
         else Inr [byte_of (224 + c div 4096), byte_of (128 + c div 64 mod 64),
                   byte_of (128 + c mod 64)])
      else if c < 1114112 then
        Inr [byte_of (240 + c div 262144), byte_of (128 + c div 4096 mod 64),
             byte_of (128 + c div 64 mod 64), byte_of (128 + c mod 64)]
      else Inl UnicodeEncodeError)"

fun utf8_encode :: "pystr \<Rightarrow> error + byte list" where
  "utf8_encode [] = Inr []"
| "utf8_encode (c # cs) =
     (case encode_cp c of
        Inl e \<Rightarrow> Inl e
      | Inr bs \<Rightarrow> (case utf8_encode cs of Inl e \<Rightarrow> Inl e | Inr rest \<Rightarrow> Inr (bs @ rest)))"

text \<open>
  \<open>bytes.decode('utf-8')\<close>: the strict decoder, which raises on a truncated or overlong
  sequence, on a surrogate and beyond U+10FFFF.
\<close>

definition continuation :: "byte \<Rightarrow> bool" where
  "continuation b \<longleftrightarrow> 128 \<le> unat b \<and> unat b < 192"

fun utf8_decode :: "byte list \<Rightarrow> error + pystr" where
  "utf8_decode [] = Inr []"
| "utf8_decode (b # bs) =
     (let n = unat b
      in if n < 128 then
           (case utf8_decode bs of Inl e \<Rightarrow> Inl e | Inr cs \<Rightarrow> Inr (n # cs))
         else if 194 \<le> n \<and> n \<le> 223 then
           (case bs of
              b1 # r \<Rightarrow>
                if continuation b1
                then (case utf8_decode r of
                        Inl e \<Rightarrow> Inl e
                      | Inr cs \<Rightarrow> Inr (((n - 192) * 64 + (unat b1 - 128)) # cs))
                else Inl UnicodeDecodeError
            | _ \<Rightarrow> Inl UnicodeDecodeError)
         else if 224 \<le> n \<and> n \<le> 239 then
           (case bs of
              b1 # b2 # r \<Rightarrow>
                (let c = (n - 224) * 4096 + (unat b1 - 128) * 64 + (unat b2 - 128)
                 in if continuation b1 \<and> continuation b2 \<and> 2048 \<le> c
                       \<and> \<not> (55296 \<le> c \<and> c \<le> 57343)
                    then (case utf8_decode r of Inl e \<Rightarrow> Inl e | Inr cs \<Rightarrow> Inr (c # cs))
                    else Inl UnicodeDecodeError)
            | _ \<Rightarrow> Inl UnicodeDecodeError)
         else if 240 \<le> n \<and> n \<le> 244 then
           (case bs of
              b1 # b2 # b3 # r \<Rightarrow>
                (let c = (n - 240) * 262144 + (unat b1 - 128) * 4096 + (unat b2 - 128) * 64
                           + (unat b3 - 128)
                 in if continuation b1 \<and> continuation b2 \<and> continuation b3 \<and> 65536 \<le> c
                       \<and> c < 1114112
                    then (case utf8_decode r of Inl e \<Rightarrow> Inl e | Inr cs \<Rightarrow> Inr (c # cs))
                    else Inl UnicodeDecodeError)
            | _ \<Rightarrow> Inl UnicodeDecodeError)
         else Inl UnicodeDecodeError)"

text \<open>\<open>n.to_bytes(k, byteorder='big')\<close> and \<open>int.from_bytes(bs, byteorder='big')\<close>.\<close>

fun be_bytes :: "nat \<Rightarrow> nat \<Rightarrow> byte list" where
  "be_bytes 0 n = []"
| "be_bytes (Suc k) n = be_bytes k (n div 256) @ [byte_of (n mod 256)]"

definition to_bytes :: "nat \<Rightarrow> nat \<Rightarrow> error + byte list" where
  "to_bytes k n = (if n < 256 ^ k then Inr (be_bytes k n) else Inl OverflowError)"

definition from_bytes :: "byte list \<Rightarrow> nat" where
  "from_bytes bs = foldl (\<lambda>acc b. acc * 256 + unat b) 0 bs"

definition derive_key :: "hashlib \<Rightarrow> pystr \<Rightarrow> error + byte list" where
  "derive_key h passphrase =
     (case utf8_encode (ascii ''crmsaltissaltyyes'') of
        Inl e \<Rightarrow> Inl e
      | Inr salt \<Rightarrow>
          (case utf8_encode passphrase of
             Inl e \<Rightarrow> Inl e
           | Inr pw \<Rightarrow> Inr (pbkdf2_hmac_sha256 h pw salt 100000)))"

text \<open>
  \<^verbatim>\<open>
  while len(keystream) < len(plaintext):
      temp = hashlib.sha256(key + temp).digest()
      keystream += temp
  \<close>
\<close>

function keystream_loop :: "hashlib \<Rightarrow> byte list \<Rightarrow> byte list \<Rightarrow> byte list \<Rightarrow> nat \<Rightarrow> byte list"
  where
  "keystream_loop h key temp keystream n =
     (if length keystream < n
      then (let temp' = digest (sha256 h (key @ temp))
            in keystream_loop h key temp' (keystream @ temp') n)
      else keystream)"
  by pat_completeness auto
termination
  by (relation "measure (\<lambda>(h, key, temp, keystream, n). n - length keystream)")
    (auto simp: digest_def)

declare keystream_loop.simps [simp del]

text \<open>The keystream for data of \<open>n\<close> bytes, from the key and the stored file name.\<close>

definition make_keystream :: "hashlib \<Rightarrow> byte list \<Rightarrow> pystr \<Rightarrow> nat \<Rightarrow> error + byte list" where
  "make_keystream h key original_filename n =
     (case utf8_encode (original_filename @ ascii ''nonce'') of
        Inl e \<Rightarrow> Inl e
      | Inr name_bytes \<Rightarrow>
          (let file_nonce = take 16 (digest (sha256 h name_bytes))
           in Inr (take n (keystream_loop h key file_nonce [] n))))"

text \<open>
  \<open>encrypt_file\<close>: \<open>plaintext\<close> is the content of \<open>input_file\<close>, the result is what is
  written to \<open>output_file\<close>.
\<close>

definition encrypt_file :: "hashlib \<Rightarrow> pystr \<Rightarrow> byte list \<Rightarrow> pystr \<Rightarrow> error + byte list" where
  "encrypt_file h input_file plaintext passphrase =
     (case derive_key h passphrase of
        Inl e \<Rightarrow> Inl e
      | Inr key \<Rightarrow>
          (let original_filename = basename input_file
           in case make_keystream h key original_filename (length plaintext) of
                Inl e \<Rightarrow> Inl e
              | Inr keystream \<Rightarrow>
                  (let encrypted = map (\<lambda>(p, k). p XOR k) (zip plaintext keystream)
                   in case utf8_encode original_filename of
                        Inl e \<Rightarrow> Inl e
                      | Inr filename_bytes \<Rightarrow>
                          (case to_bytes 16 (length filename_bytes) of
                             Inl e \<Rightarrow> Inl e
                           | Inr filename_length \<Rightarrow>
                               Inr (filename_length @ filename_bytes @ encrypted)))))"

text \<open>\<open>decrypt_file\<close>: \<open>content\<close> is the content of the encrypted file.\<close>

definition decrypt_file :: "hashlib \<Rightarrow> byte list \<Rightarrow> pystr \<Rightarrow> error + byte list" where
  "decrypt_file h content passphrase =
     (let filename_length = from_bytes (take 16 content);
          original_filename_bytes = take filename_length (drop 16 content);
          encrypted = drop filename_length (drop 16 content)
      in case utf8_decode original_filename_bytes of
           Inl e \<Rightarrow> Inl e
         | Inr original_filename \<Rightarrow>
             (case derive_key h passphrase of
                Inl e \<Rightarrow> Inl e
              | Inr key \<Rightarrow>
                  (case make_keystream h key original_filename (length encrypted) of
                     Inl e \<Rightarrow> Inl e
                   | Inr keystream \<Rightarrow>
                       Inr (map (\<lambda>(e, k). e XOR k) (zip encrypted keystream)))))"

section \<open>Auxiliary notions of the proofs\<close>


text \<open>
  The shape of a handle that extraction stores: empty, or starting with \<open>@\<close> and
  without spaces.
\<close>

definition handle_normal :: "pystr \<Rightarrow> bool" where
  "handle_normal t \<longleftrightarrow> t = [] \<or> (hd t = 64 \<and> 32 \<notin> set t)"

text \<open>
  The handle rule in the words of the specification: a no-handle token gives the empty
  string, anything else loses its spaces and gets a leading \<open>@\<close> unless it has one.
\<close>

definition handle_rule :: "pystr \<Rightarrow> pystr" where
  "handle_rule v =
     (if py_strip (py_lower v) \<in> set no_telegram_indicators then []
      else (let w = filter (\<lambda>c. c \<noteq> 32) v in if w \<noteq> [] \<and> hd w = 64 then w else 64 # w))"

text \<open>
  Field resolution in the words of the specification: the longest value seen, the
  first of them when several are equally long (and \<open>""\<close> when there is no non-empty
  value).
\<close>

fun max_length :: "pystr list \<Rightarrow> nat" where
  "max_length [] = 0"
| "max_length (v # vs) = max (length v) (max_length vs)"

definition longest_first :: "pystr list \<Rightarrow> pystr" where
  "longest_first vs =
     (case find (\<lambda>v. length v = max_length vs) vs of None \<Rightarrow> [] | Some v \<Rightarrow> v)"

text \<open>A record that has only a name, for examples.\<close>

definition named :: "pystr \<Rightarrow> person" where
  "named n =
     \<lparr> contact = (\<lambda>_. [])(Nombre := n), nombre_normalized = None, form = [],
       essay_responses = [], source = [] \<rparr>"

text \<open>The test of the filtering pass, and the key it adds to a record that has a name.\<close>

definition has_identity :: "person \<Rightarrow> bool" where
  "has_identity p \<longleftrightarrow>
     py_strip (contact p Correo) \<noteq> [] \<or> py_strip (contact p Nombre) \<noteq> [] \<or>
     py_strip (contact p Telegram) \<noteq> []"

definition add_normalized :: "person \<Rightarrow> person" where
  "add_normalized p =
     (if py_strip (contact p Nombre) \<noteq> []
      then p\<lparr>nombre_normalized := Some (normalize_spanish_name (py_strip (contact p Nombre)))\<rparr>
      else p)"

text \<open>What two runs are compared on: the set of sources and the multiset of submissions.\<close>

definition person_view :: "error + canonical \<Rightarrow> error + pystr set \<times> dict multiset" where
  "person_view r = map_sum id (\<lambda>m. (set (sources m), mset (postulaciones m))) r"

text \<open>Two survey exports with one row each, for the same email address.\<close>

definition example_table :: "string \<Rightarrow> string \<Rightarrow> string \<Rightarrow> csv_table" where
  "example_table name email answer =
     \<lparr> fieldnames = [ascii ''Nombre'', ascii ''Correo'', ascii ''Why''],
       rows = [[(ascii ''Nombre'', Some (ascii name)), (ascii ''Correo'', Some (ascii email)),
                (ascii ''Why'', Some (ascii answer))]] \<rparr>"

definition example_fs :: "pystr \<Rightarrow> csv_table option" where
  "example_fs f =
     (if f = ascii ''a.csv'' then Some (example_table ''Ana'' ''ana@uc.cl'' ''because'')
      else if f = ascii ''b.csv'' then Some (example_table ''Ana Maria'' ''ANA@uc.cl'' ''again'')
      else None)"


text \<open>
  The matching rule in the words of the specification, over a choice \<open>ws\<close> of word
  sets: an exact match of the lower-cased or of the normalized names; the Jaccard
  similarity of two word sets; the best similarity over the candidates (a candidate
  without a common word scores 0); and the acceptance test.
\<close>

definition exact_match :: "pystr \<Rightarrow> canonical \<Rightarrow> bool" where
  "exact_match name person \<longleftrightarrow>
     py_strip (py_lower name) = py_strip (py_lower (identity person Nombre)) \<or>
     normalize_spanish_name name = normalize_spanish_name (identity person Nombre)"

definition jaccard :: "pystr set \<Rightarrow> pystr set \<Rightarrow> rat" where
  "jaccard a b = of_nat (card (a \<inter> b)) / of_nat (card (a \<union> b))"

definition best_score :: "(pystr \<Rightarrow> pystr set) \<Rightarrow> pystr \<Rightarrow> canonical list \<Rightarrow> rat" where
  "best_score ws name people =
     foldl max 0 (map (\<lambda>person. jaccard (ws (normalize_spanish_name name))
                                  (ws (normalize_spanish_name (identity person Nombre)))) people)"

definition accepts :: "(pystr \<Rightarrow> pystr set) \<Rightarrow> pystr \<Rightarrow> canonical list \<Rightarrow> bool" where
  "accepts ws name people \<longleftrightarrow>
     list_ex (exact_match name) people \<or>
     1 / 2 \<le> best_score ws name people \<or>
     (0 < best_score ws name people \<and> card (ws (normalize_spanish_name name)) \<le> 2)"

text \<open>The word set with the common words dropped and nothing else.\<close>

definition filtered_word_set :: "pystr \<Rightarrow> pystr set" where
  "filtered_word_set normalized =
     set (filter (\<lambda>word. word \<notin> common_words) (py_split normalized))"

text \<open>A registry entry that has only a name, and a name with accents, for examples.\<close>

definition candidate :: "pystr \<Rightarrow> canonical" where
  "candidate n =
     \<lparr> identity = (\<lambda>_. [])(Nombre := n), merged_nombre_normalized = normalize_spanish_name n,
       postulaciones = [], sources = [], attendance = None \<rparr>"

definition ana_maria_perez :: pystr where
  "ana_maria_perez = ascii ''Ana Mar'' @ [237] @ ascii ''a P'' @ [233] @ ascii ''rez''"


text \<open>
  The cells of a table row by position, blank cells kept, and the number of session
  rows that have one of the given codes in the column \<open>j\<close>: the count in the words of
  the specification.
\<close>

definition row_cells :: "pystr \<Rightarrow> pystr list" where
  "row_cells line = map py_strip (py_split_on 124 line)"

definition column_count :: "pystr set \<Rightarrow> pystr list \<Rightarrow> nat \<Rightarrow> nat" where
  "column_count codes session_lines j =
     length (filter (\<lambda>line. j < length (row_cells line) \<and> row_cells line ! j \<in> codes)
               session_lines)"

text \<open>A table in which the first person has a blank cell in the only session.\<close>

definition shifted_table :: "pystr list" where
  "shifted_table =
     [ascii ''| Session | Ana | Bob |'', ascii ''|---|---|---|'', ascii ''| S1 |  | A |'']"

text \<open>A string that \<open>str.encode\<close> accepts: code points, none of them a surrogate.\<close>

definition encodable :: "pystr \<Rightarrow> bool" where
  "encodable s \<longleftrightarrow> list_all (\<lambda>c. c < 1114112 \<and> \<not> (55296 \<le> c \<and> c \<le> 57343)) s"

text \<open>A stand-in for \<open>hashlib\<close>, for examples.\<close>

definition toy_hashlib :: hashlib where
  "toy_hashlib =
     \<lparr> sha256 = (\<lambda>bs. of_nat (length bs) * 1000003 + 77),
       pbkdf2_hmac_sha256 = (\<lambda>password salt iterations. password @ salt) \<rparr>"


section \<open>Properties of the normalizer\<close>


















section \<open>A missing attendance directory\<close>

text \<open>
  Claim C9. When the attendance directory does not exist, \<open>process_attendance_files\<close>
  returns the registry it was given: no error, nobody changed, added or removed.
\<close>

theorem process_attendance_files_missing_directory:
  "process_attendance_files people_data attendance_dir None = Inr people_data"
  by (simp add: process_attendance_files_def)

section \<open>Messaging handles\<close>

lemma replace_single_nil: "replace_from [c] [] 0 s = filter (\<lambda>x. x \<noteq> c) s"
  by (induction s) auto

lemma py_replace_space: "py_replace [32] [] s = filter (\<lambda>x. x \<noteq> 32) s"
  by (simp add: py_replace_def replace_single_nil)

lemma telegram_handle_normal: "handle_normal (telegram_handle v)"
  by (auto simp: telegram_handle_def handle_normal_def Let_def py_replace_space startswith_def ascii_def prefix_def)

lemma py_strip_hd: "s \<noteq> [] \<Longrightarrow> \<not> isspace (hd s) \<Longrightarrow> py_strip s \<noteq> [] \<and> hd (py_strip s) = hd s"
proof -
  assume a: "s \<noteq> []" "\<not> isspace (hd s)"
  then obtain c cs where s: "s = c # cs" by (cases s) auto
  with a have d: "dropWhile isspace s = s" by simp
  have "\<exists>x\<in>set (rev cs @ [c]). \<not> isspace x" using a s by auto
  then have "dropWhile isspace (rev cs @ [c]) = dropWhile isspace (rev cs) @ [c]"
    by (metis dropWhile_append1 dropWhile_append2 dropWhile_eq_Nil_conv a(2) s list.sel(1) dropWhile.simps append_Nil)
  then show ?thesis using s a by (simp add: py_strip_def)
qed

lemma not_indicator_at:
  assumes "v \<noteq> []" "hd v = 64"
  shows "\<not> list_ex (\<lambda>indicator. py_strip (py_lower v) = indicator) no_telegram_indicators"
proof -
  from assms have "py_lower v \<noteq> []" "hd (py_lower v) = 64"
    by (auto simp: py_lower_def lower_cp_def hd_map)
  then have "py_strip (py_lower v) \<noteq> [] \<and> hd (py_strip (py_lower v)) = 64"
    using py_strip_hd [of "py_lower v"] by (simp add: isspace_def)
  then show ?thesis
    by (auto simp: no_telegram_indicators_def ascii_def)
qed

lemma telegram_handle_fixed: "handle_normal t \<Longrightarrow> t \<noteq> [] \<Longrightarrow> telegram_handle t = t"
proof -
  assume h: "handle_normal t" "t \<noteq> []"
  then have "hd t = 64" "32 \<notin> set t" by (auto simp: handle_normal_def)
  moreover from this have "filter (\<lambda>x. x \<noteq> 32) t = t" by (auto simp: filter_id_conv)
  moreover have "prefix [64] t" using h(2) \<open>hd t = 64\<close> by (cases t) auto
  ultimately show ?thesis using not_indicator_at [of t] h(2)
    by (simp add: telegram_handle_def py_replace_space startswith_def ascii_def)
qed

lemma telegram_handle_rule: "telegram_handle v = handle_rule v"
proof -
  have "list_ex (\<lambda>indicator. py_strip (py_lower v) = indicator) no_telegram_indicators
          \<longleftrightarrow> py_strip (py_lower v) \<in> set no_telegram_indicators"
    by (auto simp: list_ex_iff)
  moreover have "prefix [64] w \<longleftrightarrow> w \<noteq> [] \<and> hd w = 64" for w :: pystr
    by (cases w) auto
  ultimately show ?thesis
    by (simp add: telegram_handle_def handle_rule_def py_replace_space startswith_def ascii_def
        Let_def)
qed

lemma contact_value_normal: "handle_normal (contact_value Telegram cell)"
proof -
  have "contact_value Telegram cell = [] \<or> (\<exists>v. contact_value Telegram cell = telegram_handle v)"
    by (auto simp: contact_value_def Let_def split: option.splits)
  then show ?thesis
  proof
    assume "contact_value Telegram cell = []"
    then show ?thesis by (simp add: handle_normal_def)
  next
    assume "\<exists>v. contact_value Telegram cell = telegram_handle v"
    then obtain v where "contact_value Telegram cell = telegram_handle v" ..
    then show ?thesis by (simp only: telegram_handle_normal)
  qed
qed

text \<open>
  Claim C6. The handle normalization, at extraction time (on the trimmed cell) and
  again at merge time (on the stored value): for a non-empty value, a no-handle token
  (compared lower-cased and trimmed) gives the empty string; otherwise every space is
  removed and \<open>@\<close> is put in front unless it is there. The value that extraction
  stores is left as it is by the merge-time pass.
\<close>

theorem telegram_normalization:
  "(py_strip cell \<noteq> [] \<longrightarrow>
      contact_value Telegram (Some cell) = handle_rule (py_strip cell)) \<and>
   (v \<noteq> [] \<longrightarrow> merge_value Telegram [] v = handle_rule v) \<and>
   merge_value Telegram [] (contact_value Telegram (Some cell))
     = contact_value Telegram (Some cell)"
proof (intro conjI impI)
  assume "py_strip cell \<noteq> []"
  moreover from this have "cell \<noteq> []" by (auto simp: py_strip_def)
  ultimately show "contact_value Telegram (Some cell) = handle_rule (py_strip cell)"
    by (simp add: contact_value_def telegram_handle_rule)
next
  assume "v \<noteq> []"
  then show "merge_value Telegram [] v = handle_rule v"
    by (simp add: merge_value_def telegram_handle_rule Let_def)
next
  let ?t = "contact_value Telegram (Some cell)"
  have "handle_normal ?t" by (rule contact_value_normal)
  then have "?t \<noteq> [] \<Longrightarrow> telegram_handle ?t = ?t" by (rule telegram_handle_fixed)
  then show "merge_value Telegram [] ?t = ?t"
    by (cases "?t = []") (simp_all add: merge_value_def Let_def)
qed

lemma handle_rule_no_tengo: "handle_rule (ascii ''no tengo'') = []"
  by (simp add: handle_rule_def no_telegram_indicators_def ascii_def py_lower_def lower_cp_def
      py_strip_def isspace_def)

lemma handle_rule_juanperez: "handle_rule (ascii ''juanperez'') = ascii ''@juanperez''"
  by (simp add: handle_rule_def no_telegram_indicators_def ascii_def py_lower_def lower_cp_def
      py_strip_def isspace_def)

lemma handle_rule_at_juanperez: "handle_rule (ascii ''@juanperez'') = ascii ''@juanperez''"
  by (simp add: handle_rule_def no_telegram_indicators_def ascii_def py_lower_def lower_cp_def
      py_strip_def isspace_def)

lemma py_strip_ascii_examples:
  "py_strip (ascii ''no tengo'') = ascii ''no tengo''"
  "py_strip (ascii ''juanperez'') = ascii ''juanperez''"
  "py_strip (ascii ''@juanperez'') = ascii ''@juanperez''"
  by (simp_all add: py_strip_def ascii_def isspace_def)

theorem telegram_normalization_witness:
  "contact_value Telegram (Some (ascii ''no tengo'')) = [] \<and>
   contact_value Telegram (Some (ascii ''juanperez'')) = ascii ''@juanperez'' \<and>
   contact_value Telegram (Some (ascii ''@juanperez'')) = ascii ''@juanperez'' \<and>
   merge_value Telegram [] (ascii ''no tengo'') = [] \<and>
   merge_value Telegram [] (ascii ''juanperez'') = ascii ''@juanperez'' \<and>
   merge_value Telegram [] (ascii ''@juanperez'') = ascii ''@juanperez''"
proof -
  have ne: "ascii ''no tengo'' \<noteq> []" "ascii ''juanperez'' \<noteq> []" "ascii ''@juanperez'' \<noteq> []"
    by (simp_all add: ascii_def)
  show ?thesis
    using telegram_normalization [of "ascii ''no tengo''" "ascii ''no tengo''"]
      telegram_normalization [of "ascii ''juanperez''" "ascii ''juanperez''"]
      telegram_normalization [of "ascii ''@juanperez''" "ascii ''@juanperez''"]
    by (simp only: py_strip_ascii_examples ne handle_rule_no_tengo handle_rule_juanperez
        handle_rule_at_juanperez simp_thms)
qed

section \<open>Resolution of the identity fields\<close>

lemma max_length_ge: "v \<in> set vs \<Longrightarrow> length v \<le> max_length vs"
  by (induction vs) auto

lemma max_length_attained: "vs \<noteq> [] \<Longrightarrow> \<exists>v\<in>set vs. length v = max_length vs"
proof (induction vs)
  case Nil
  then show ?case by simp
next
  case (Cons a vs)
  show ?case
  proof (cases "vs = []")
    case True
    then show ?thesis by simp
  next
    case False
    with Cons obtain v where v: "v \<in> set vs" "length v = max_length vs" by auto
    show ?thesis
    proof (cases "length a \<le> max_length vs")
      case True
      then have "max_length (a # vs) = max_length vs" by simp
      with v show ?thesis by (metis list.set_intros(2))
    next
      case False
      then have "max_length (a # vs) = length a" by simp
      then show ?thesis by (metis list.set_intros(1))
    qed
  qed
qed

lemma find_snoc:
  "find P (xs @ [y]) = (case find P xs of None \<Rightarrow> (if P y then Some y else None) | Some x \<Rightarrow> Some x)"
  by (induction xs) auto

lemma max_length_snoc: "max_length (vs @ [v]) = max (max_length vs) (length v)"
  by (induction vs) auto

lemma find_longest:
  assumes "vs \<noteq> []"
  shows "\<exists>w. find (\<lambda>v. length v = max_length vs) vs = Some w \<and> length w = max_length vs"
proof -
  from assms obtain v where "v \<in> set vs" "length v = max_length vs"
    using max_length_attained by blast
  then have "find (\<lambda>v. length v = max_length vs) vs \<noteq> None"
    by (auto simp: find_None_iff)
  then obtain w where w: "find (\<lambda>v. length v = max_length vs) vs = Some w" by auto
  then have "length w = max_length vs" by (auto simp: find_Some_iff)
  with w show ?thesis by simp
qed

lemma length_longest_first: "length (longest_first vs) = max_length vs"
proof (cases "vs = []")
  case True
  then show ?thesis by (simp add: longest_first_def)
next
  case False
  from find_longest [OF this] show ?thesis by (auto simp: longest_first_def)
qed

lemma longest_first_snoc:
  "longest_first (vs @ [v]) =
     (if length (longest_first vs) < length v then v else longest_first vs)"
proof (cases "max_length vs < length v")
  case True
  then have m: "max_length (vs @ [v]) = length v" by (simp add: max_length_snoc)
  from True have "\<forall>x\<in>set vs. length x \<noteq> length v" using max_length_ge [of _ vs] by fastforce
  then have "find (\<lambda>x. length x = length v) vs = None" by (simp add: find_None_iff)
  then have "longest_first (vs @ [v]) = v"
    unfolding longest_first_def m by (simp add: find_snoc)
  with True show ?thesis by (simp add: length_longest_first)
next
  case False
  then have m: "max_length (vs @ [v]) = max_length vs" by (simp add: max_length_snoc)
  have "longest_first (vs @ [v]) = longest_first vs"
  proof (cases "vs = []")
    case True
    with False show ?thesis by (simp add: longest_first_def)
  next
    case nonempty: False
    from find_longest [OF this] show ?thesis
      unfolding longest_first_def m by (auto simp: find_snoc)
  qed
  with False show ?thesis by (simp add: length_longest_first)
qed

lemma foldl_pick:
  "foldl (\<lambda>c v. if length c < length v then v else c) [] vs = longest_first vs"
proof (induction vs rule: rev_induct)
  case Nil
  show ?case by (simp add: longest_first_def)
next
  case (snoc v vs)
  then show ?case by (simp add: longest_first_snoc)
qed

lemma merge_value_plain:
  "field \<noteq> Telegram \<or> handle_normal raw \<Longrightarrow>
   merge_value field current raw = (if length current < length raw then raw else current)"
  by (cases "raw = []") (auto simp: merge_value_def telegram_handle_fixed)

lemma merge_contact_field:
  "merge_contact p merged field = merge_value field (merged field) (contact p field)"
  by (cases field) (simp_all add: merge_contact_def)

lemma fold_merge_contact:
  "fold merge_contact grp merged field
     = foldl (\<lambda>current p. merge_value field current (contact p field)) (merged field) grp"
  by (induction grp arbitrary: merged) (simp_all add: merge_contact_field)

lemma foldl_merge_value:
  assumes "\<forall>p\<in>set grp. handle_normal (contact p Telegram)"
  shows "foldl (\<lambda>current p. merge_value field current (contact p field)) c grp
     = foldl (\<lambda>c v. if length c < length v then v else c) c (map (\<lambda>p. contact p field) grp)"
  using assms by (induction grp arbitrary: c) (simp_all add: merge_value_plain)

text \<open>
  Claim C1. For a non-empty group of records whose handles have the shape that
  extraction stores (every group of a run is one, see \<open>pipeline_handle_normal\<close> below)
  the merge does not fail, and every identity field of the merged person is resolved
  on its own over the group in input order: the first non-empty value seeds it and a
  later value replaces it only when strictly longer, that is, the result is the first
  of the longest values.
\<close>

theorem merge_identity_fields:
  assumes "grp \<noteq> []" and "\<forall>p\<in>set grp. handle_normal (contact p Telegram)"
  shows "map_sum id (\<lambda>merged. identity merged field) (merge_group grp)
           = Inr (longest_first (map (\<lambda>p. contact p field) grp))"
proof -
  from assms(1) obtain first rest where g: "grp = first # rest" by (cases grp) auto
  let ?pick = "\<lambda>c v. if length c < length v then v else c"
  let ?vs = "map (\<lambda>p. contact p field) grp"
  have "fold merge_contact grp (contact first) field = foldl ?pick (contact first field) ?vs"
    by (simp only: fold_merge_contact foldl_merge_value [OF assms(2)])
  also have "\<dots> = foldl ?pick [] ?vs" by (simp add: g)
  finally have "fold merge_contact grp (contact first) field = longest_first ?vs"
    by (simp only: foldl_pick)
  then show ?thesis by (simp add: merge_group_def g)
qed

theorem merge_identity_fields_witness:
  "map_sum id (\<lambda>merged. identity merged Nombre)
     (merge_group [named (ascii ''Ana''), named (ascii ''Ana Mar'' @ [237] @ ascii ''a''),
                   named (ascii ''An'')])
   = Inr (ascii ''Ana Mar'' @ [237] @ ascii ''a'')"
  using merge_identity_fields
    [of "[named (ascii ''Ana''), named (ascii ''Ana Mar'' @ [237] @ ascii ''a''),
          named (ascii ''An'')]" Nombre]
  by (simp add: named_def handle_normal_def longest_first_def ascii_def)

section \<open>Grouping is a partition\<close>

lemma filter_people_eq: "filter_people ps = map add_normalized (filter has_identity ps)"
  by (induction ps) (auto simp: has_identity_def add_normalized_def Let_def)

lemma add_to_group_keys:
  "map fst (add_to_group k p gs) = (if k \<in> fst ` set gs then map fst gs else map fst gs @ [k])"
  by (induction gs) force+

lemma add_to_group_distinct:
  "distinct (map fst gs) \<Longrightarrow> distinct (map fst (add_to_group k p gs))"
  by (simp add: add_to_group_keys)

lemma add_to_group_lookup:
  "map_of (add_to_group k p gs) k' =
     (if k' = k then Some ((case map_of gs k of None \<Rightarrow> [] | Some g \<Rightarrow> g) @ [p])
      else map_of gs k')"
  by (induction gs) auto



lemma foldl_group_distinct:
  "distinct (map fst gs) \<Longrightarrow>
   distinct (map fst (foldl (\<lambda>email_groups p. add_to_group (group_key p) p email_groups) gs ps))"
  by (induction ps arbitrary: gs) (simp_all add: add_to_group_distinct)

lemma foldl_group_lookup:
  "map_of (foldl (\<lambda>email_groups p. add_to_group (group_key p) p email_groups) gs ps) k =
     (case map_of gs k of
        None \<Rightarrow> (if filter (\<lambda>p. group_key p = k) ps = [] then None
                 else Some (filter (\<lambda>p. group_key p = k) ps))
      | Some g \<Rightarrow> Some (g @ filter (\<lambda>p. group_key p = k) ps))"
  by (induction ps arbitrary: gs) (auto simp: add_to_group_lookup split: option.splits)



lemma group_people_distinct: "distinct (map fst (group_people ps))"
  by (simp add: group_people_def foldl_group_distinct)

lemma group_people_lookup:
  "map_of (group_people ps) k =
     (if filter (\<lambda>p. group_key p = k) ps = [] then None
      else Some (filter (\<lambda>p. group_key p = k) ps))"
  by (simp add: group_people_def foldl_group_lookup)

lemma group_people_member:
  assumes "(k, g) \<in> set (group_people ps)"
  shows "g \<noteq> [] \<and> g = filter (\<lambda>p. group_key p = k) ps"
proof -
  from assms have "map_of (group_people ps) k = Some g"
    by (simp add: group_people_distinct)
  then show ?thesis by (auto simp: group_people_lookup split: if_splits)
qed



section \<open>The merge does not depend on the input order\<close>

lemma collect_all_Inr: "\<forall>r\<in>set rs. \<exists>x. r = Inr x \<Longrightarrow> \<exists>xs. collect rs = Inr xs"
proof (induction rs)
  case Nil
  show ?case by simp
next
  case (Cons r rs)
  then obtain x xs where "r = Inr x" "collect rs = Inr xs" by auto
  then show ?case by simp
qed

lemma merge_group_Inr: "g \<noteq> [] \<Longrightarrow> \<exists>m. merge_group g = Inr m"
  by (cases g) (simp_all add: merge_group_def)

lemma process_csv_files_total: "\<exists>result. process_csv_files fs filenames = Inr result"
proof -
  have "\<forall>r\<in>set (map snd (merged_groups (all_people fs filenames))). \<exists>x. r = Inr x"
    using group_people_member merge_group_Inr
    by (fastforce simp: merged_groups_def)
  then show ?thesis unfolding process_csv_files_def by (rule collect_all_Inr)
qed

lemma merged_groups_lookup:
  "map_of (merged_groups people) k = map_option merge_group (map_of (group_people (filter_people people)) k)"
  by (simp add: merged_groups_def map_of_map)

lemma person_view_merge_group:
  assumes "g \<noteq> []"
  shows "person_view (merge_group g)
     = Inr (source ` set g,
            filter_mset (\<lambda>postulacion. 1 < length postulacion) (image_mset postulacion_of (mset g)))"
proof -
  from assms obtain first rest where "g = first # rest" by (cases g) auto
  then show ?thesis by (auto simp: person_view_def merge_group_def)
qed

lemma person_view_mset:
  assumes "mset g = mset g'" "g \<noteq> []"
  shows "person_view (merge_group g) = person_view (merge_group g')"
proof -
  from assms have ne: "g' \<noteq> []" by auto
  from assms(1) have s: "set g = set g'" by (rule mset_eq_setD)
  have "person_view (merge_group g)
     = Inr (source ` set g',
            filter_mset (\<lambda>postulacion. 1 < length postulacion) (image_mset postulacion_of (mset g')))"
    unfolding person_view_merge_group [OF assms(2)] s assms(1) ..
  also have "\<dots> = person_view (merge_group g')"
    by (rule person_view_merge_group [OF ne, symmetric])
  finally show ?thesis .
qed

section \<open>The records of a run\<close>

text \<open>Every record that extraction produces has a handle of the stored shape.\<close>

lemma read_row_handle_normal: "handle_normal (contact (read_row filename cols row) Telegram)"
  by (auto simp: read_row_def contact_value_normal split: option.splits)
    (simp add: handle_normal_def)+

lemma all_people_handle_normal:
  "p \<in> set (all_people fs filenames) \<Longrightarrow> handle_normal (contact p Telegram)"
  by (auto simp: all_people_def read_csv_file_def read_row_handle_normal split: option.splits)

lemma contact_add_normalized: "contact (add_normalized p) = contact p"
  by (simp add: add_normalized_def)

lemma pipeline_handle_normal:
  assumes "(key, grp) \<in> set (group_people (filter_people (all_people fs filenames)))"
    and "p \<in> set grp"
  shows "handle_normal (contact p Telegram)"
proof -
  from group_people_member [OF assms(1)] assms(2)
  have "p \<in> set (filter_people (all_people fs filenames))" by auto
  then obtain q where "q \<in> set (all_people fs filenames)" "p = add_normalized q"
    by (auto simp: filter_people_eq)
  then show ?thesis by (simp add: contact_add_normalized all_people_handle_normal)
qed


text \<open>Two exports with one row each for the same email address, step by step.\<close>

lemma example_names_differ:
  "ascii ''b.csv'' \<noteq> ascii ''a.csv''" "ascii ''a.csv'' \<noteq> ascii ''b.csv''"
  "ascii ''Correo'' \<noteq> ascii ''Nombre''" "ascii ''Nombre'' \<noteq> ascii ''Correo''"
  "ascii ''Why'' \<noteq> ascii ''Nombre''" "ascii ''Nombre'' \<noteq> ascii ''Why''"
  "ascii ''Why'' \<noteq> ascii ''Correo''" "ascii ''Correo'' \<noteq> ascii ''Why''"
  by (simp_all add: ascii_def)

lemma example_contact_mapping:
  "contact_mapping [ascii ''Nombre'', ascii ''Correo'', ascii ''Why'']
     = [(Nombre, ascii ''Nombre''), (Correo, ascii ''Correo'')]"
  by (simp add: contact_mapping_def contact_patterns_def ascii_def List.map_filter_def)

lemma example_admin_columns:
  "admin_columns [ascii ''Nombre'', ascii ''Correo'', ascii ''Why''] = {}"
  by (simp add: admin_columns_def admin_patterns_def ascii_def py_lower_def lower_cp_def)

lemma example_slug: "simplify_question (ascii ''Why'') = ascii ''why''"
  by (simp add: simplify_question_def emojis_def py_replace_def ascii_def py_strip_def
      isspace_def is_word_cp_def py_lower_def lower_cp_def)

lemma example_read_row:
  "contact (read_row f [ascii ''Nombre'', ascii ''Correo'', ascii ''Why'']
      [(ascii ''Nombre'', Some n), (ascii ''Correo'', Some e), (ascii ''Why'', Some a)]) Correo
     = contact_value Correo (Some e)"
  "source (read_row f [ascii ''Nombre'', ascii ''Correo'', ascii ''Why'']
      [(ascii ''Nombre'', Some n), (ascii ''Correo'', Some e), (ascii ''Why'', Some a)]) = f"
  "a \<noteq> [] \<Longrightarrow>
   essay_responses (read_row f [ascii ''Nombre'', ascii ''Correo'', ascii ''Why'']
      [(ascii ''Nombre'', Some n), (ascii ''Correo'', Some e), (ascii ''Why'', Some a)])
     = [(ascii ''why'', py_strip a)]"
  by (simp_all add: read_row_def example_contact_mapping example_names_differ
      contact_columns_def example_admin_columns example_slug)

lemma example_cells:
  "contact_value Correo (Some (ascii ''ana@uc.cl'')) = ascii ''ana@uc.cl''"
  "contact_value Correo (Some (ascii ''ANA@uc.cl'')) = ascii ''ANA@uc.cl''"
  "py_lower (py_strip (ascii ''ana@uc.cl'')) = ascii ''ana@uc.cl''"
  "py_lower (py_strip (ascii ''ANA@uc.cl'')) = ascii ''ana@uc.cl''"
  "py_strip (ascii ''ana@uc.cl'') \<noteq> []" "py_strip (ascii ''ANA@uc.cl'') \<noteq> []"
  "py_strip (ascii ''because'') = ascii ''because''" "py_strip (ascii ''again'') = ascii ''again''"
  "ascii ''because'' \<noteq> []" "ascii ''again'' \<noteq> []" "ascii ''ana@uc.cl'' \<noteq> []"
  "basename (ascii ''a.csv'') = ascii ''a.csv''" "basename (ascii ''b.csv'') = ascii ''b.csv''"
  "ascii ''why'' \<noteq> ascii ''form''" "ascii ''form'' \<noteq> ascii ''why''"
  by (simp_all add: contact_value_def py_strip_def py_lower_def lower_cp_def isspace_def
      basename_def ascii_def)

lemma group_key_email:
  "py_strip (contact p Correo) \<noteq> [] \<Longrightarrow>
   group_key (add_normalized p) = py_lower (py_strip (contact p Correo))"
  by (simp add: group_key_def add_normalized_def py_lower_def)

lemma example_people:
  "all_people example_fs [ascii ''a.csv'', ascii ''b.csv'']
     = [read_row (ascii ''a.csv'') [ascii ''Nombre'', ascii ''Correo'', ascii ''Why'']
          [(ascii ''Nombre'', Some (ascii ''Ana'')), (ascii ''Correo'', Some (ascii ''ana@uc.cl'')),
           (ascii ''Why'', Some (ascii ''because''))],
        read_row (ascii ''b.csv'') [ascii ''Nombre'', ascii ''Correo'', ascii ''Why'']
          [(ascii ''Nombre'', Some (ascii ''Ana Maria'')), (ascii ''Correo'', Some (ascii ''ANA@uc.cl'')),
           (ascii ''Why'', Some (ascii ''again''))]]"
  by (simp add: all_people_def read_csv_file_def example_fs_def example_table_def
      example_names_differ)

lemma example_view:
  "map_option person_view
     (map_of (merged_groups (all_people example_fs [ascii ''a.csv'', ascii ''b.csv'']))
        (ascii ''ana@uc.cl''))
   = Some (Inr ({ascii ''a.csv'', ascii ''b.csv''},
               {#[(ascii ''form'', ascii ''a.csv''), (ascii ''why'', ascii ''because'')],
                 [(ascii ''form'', ascii ''b.csv''), (ascii ''why'', ascii ''again'')]#}))"
proof -
  let ?a = "read_row (ascii ''a.csv'') [ascii ''Nombre'', ascii ''Correo'', ascii ''Why'']
          [(ascii ''Nombre'', Some (ascii ''Ana'')), (ascii ''Correo'', Some (ascii ''ana@uc.cl'')),
           (ascii ''Why'', Some (ascii ''because''))]"
  let ?b = "read_row (ascii ''b.csv'') [ascii ''Nombre'', ascii ''Correo'', ascii ''Why'']
          [(ascii ''Nombre'', Some (ascii ''Ana Maria'')), (ascii ''Correo'', Some (ascii ''ANA@uc.cl'')),
           (ascii ''Why'', Some (ascii ''again''))]"
  have ia: "has_identity ?a" and ib: "has_identity ?b"
    by (simp_all add: has_identity_def example_read_row example_cells)
  have f: "filter_people [?a, ?b] = [add_normalized ?a, add_normalized ?b]"
    by (simp add: filter_people_eq ia ib)
  have ka: "group_key (add_normalized ?a) = ascii ''ana@uc.cl''"
    and kb: "group_key (add_normalized ?b) = ascii ''ana@uc.cl''"
    by (simp_all add: group_key_email example_read_row example_cells)
  have g: "map_of (group_people (filter_people [?a, ?b])) (ascii ''ana@uc.cl'')
      = Some [add_normalized ?a, add_normalized ?b]"
    unfolding f by (simp add: group_people_lookup ka kb)
  have sa: "source (add_normalized ?a) = ascii ''a.csv''"
    and sb: "source (add_normalized ?b) = ascii ''b.csv''"
    by (simp_all add: add_normalized_def example_read_row)
  have pa: "postulacion_of (add_normalized ?a)
      = [(ascii ''form'', ascii ''a.csv''), (ascii ''why'', ascii ''because'')]"
    and pb: "postulacion_of (add_normalized ?b)
      = [(ascii ''form'', ascii ''b.csv''), (ascii ''why'', ascii ''again'')]"
    by (simp_all add: postulacion_of_def add_normalized_def example_read_row example_cells)
  show ?thesis
    unfolding example_people merged_groups_lookup g
    by (simp add: person_view_merge_group sa sb pa pb)
qed


text \<open>
  Claim C8. When the records of two runs are permutations of each other (the files in
  another order, the rows in another order), then for every group key the two runs
  either both have no person or have persons with the same set of sources and the
  same multiset of submissions; and neither run fails.
\<close>

theorem merge_order_insensitive:
  assumes "mset (all_people fs filenames) = mset (all_people fs' filenames')"
  shows "map_option person_view (map_of (merged_groups (all_people fs filenames)) key)
           = map_option person_view (map_of (merged_groups (all_people fs' filenames')) key) \<and>
         (\<exists>result. process_csv_files fs filenames = Inr result) \<and>
         (\<exists>result. process_csv_files fs' filenames' = Inr result)"
proof -
  let ?A = "all_people fs filenames" and ?B = "all_people fs' filenames'"
  from assms have "mset (filter_people ?A) = mset (filter_people ?B)"
    by (simp add: filter_people_eq)
  then have m: "mset (filter (\<lambda>p. group_key p = key) (filter_people ?A))
      = mset (filter (\<lambda>p. group_key p = key) (filter_people ?B))" by (metis mset_filter)
  then have e: "filter (\<lambda>p. group_key p = key) (filter_people ?A) = [] \<longleftrightarrow>
      filter (\<lambda>p. group_key p = key) (filter_people ?B) = []"
    by (metis mset_zero_iff)
  have "map_option person_view (map_of (merged_groups ?A) key)
           = map_option person_view (map_of (merged_groups ?B) key)"
    using e person_view_mset [OF m]
    by (auto simp: merged_groups_lookup group_people_lookup)
  then show ?thesis using process_csv_files_total by blast
qed


theorem merge_order_insensitive_witness:
  "map_option person_view
     (map_of (merged_groups (all_people example_fs [ascii ''b.csv'', ascii ''a.csv'']))
        (ascii ''ana@uc.cl''))
   = Some (Inr ({ascii ''a.csv'', ascii ''b.csv''},
               {#[(ascii ''form'', ascii ''a.csv''), (ascii ''why'', ascii ''because'')],
                 [(ascii ''form'', ascii ''b.csv''), (ascii ''why'', ascii ''again'')]#}))"
proof -
  have "mset (all_people example_fs [ascii ''a.csv'', ascii ''b.csv''])
      = mset (all_people example_fs [ascii ''b.csv'', ascii ''a.csv''])"
    by (simp add: all_people_def)
  from merge_order_insensitive [OF this, of "ascii ''ana@uc.cl''"]
  have "map_option person_view
     (map_of (merged_groups (all_people example_fs [ascii ''a.csv'', ascii ''b.csv'']))
        (ascii ''ana@uc.cl''))
   = map_option person_view
       (map_of (merged_groups (all_people example_fs [ascii ''b.csv'', ascii ''a.csv'']))
          (ascii ''ana@uc.cl''))"
    by (elim conjE)
  then show ?thesis by (simp only: example_view)
qed

section \<open>Name matching\<close>

lemma finite_word_set: "finite (word_set s)"
  by (simp add: word_set_def Let_def)

lemma jaccard_nonneg: "0 \<le> jaccard a b"
  by (simp add: jaccard_def)

lemma match_loop_iff:
  assumes "0 \<le> s" and "0 < s \<longrightarrow> best \<noteq> None"
  shows "match_loop (py_strip (py_lower name)) (normalize_spanish_name name) nw idx people best s \<noteq> None
     \<longleftrightarrow> list_ex (exact_match name) people \<or>
         (let b = foldl max s (map (\<lambda>person. jaccard nw
                     (word_set (normalize_spanish_name (identity person Nombre)))) people)
          in 1 / 2 \<le> b \<or> (0 < b \<and> card nw \<le> 2))"
  using assms
proof (induction people arbitrary: idx best s)
  case Nil
  then show ?case by auto
next
  case (Cons person rest)
  let ?j = "jaccard nw (word_set (normalize_spanish_name (identity person Nombre)))"
  show ?case
  proof (cases "exact_match name person")
    case True
    then show ?thesis by (auto simp: exact_match_def Let_def)
  next
    case False
    have upd: "(0 < card (nw \<union> word_set (normalize_spanish_name (identity person Nombre))) \<and>
          0 < card (nw \<inter> word_set (normalize_spanish_name (identity person Nombre))) \<and> s < ?j)
        \<longleftrightarrow> s < ?j"
    proof -
      have "s < ?j \<Longrightarrow> 0 < ?j" using Cons.prems(1) by simp
      then have "s < ?j \<Longrightarrow> 0 < card (nw \<union> word_set (normalize_spanish_name (identity person Nombre)))
          \<and> 0 < card (nw \<inter> word_set (normalize_spanish_name (identity person Nombre)))"
        by (auto simp: jaccard_def zero_less_divide_iff)
      then show ?thesis by blast
    qed
    show ?thesis
    proof (cases "s < ?j")
      case True
      have "0 \<le> ?j" by (rule jaccard_nonneg)
      from Cons.IH [of ?j "Some idx" "idx + 1"] this True False upd show ?thesis
        by (simp add: exact_match_def Let_def jaccard_def max_def)
    next
      case notless: False
      from Cons.IH [of s best "idx + 1"] Cons.prems notless False upd show ?thesis
        by (simp add: exact_match_def Let_def jaccard_def max_def)
    qed
  qed
qed

text \<open>
  Claim C2, as amended. \<open>match_person_name\<close> returns a match if and only if some
  candidate's name equals the query after lower-casing and trimming or after
  normalization, or the best Jaccard similarity of the word sets is at least 1/2, or
  it is positive while the query has at most two words; where the word set of a name
  is its set of words without the common words, or all its words when every word is
  a common word.
\<close>

theorem match_person_name_iff:
  "match_person_name name people \<noteq> None \<longleftrightarrow> accepts word_set name people"
  unfolding match_person_name_def accepts_def best_score_def
  using match_loop_iff [of 0 None name "word_set (normalize_spanish_name name)" 0 people]
  by (simp add: Let_def)


lemmas normalizer_defs = normalize_spanish_name_def nfd_def decompose_def
      canonical_decomposition_def combining_def py_lower_def lower_cp_def py_strip_def
      isspace_def ascii_def py_split_def common_words_def word_set_def

lemma normalize_de_la: "normalize_spanish_name (ascii ''de la'') = ascii ''de la''"
  by (simp add: normalizer_defs)
lemma normalize_de: "normalize_spanish_name (ascii ''de'') = ascii ''de''"
  by (simp add: normalizer_defs)
lemma word_set_de_la: "word_set (ascii ''de la'') = {ascii ''de'', ascii ''la''}"
  by (simp add: normalizer_defs)
lemma word_set_de: "word_set (ascii ''de'') = {ascii ''de''}"
  by (simp add: normalizer_defs)
lemma filtered_word_set_de_la: "filtered_word_set (ascii ''de la'') = {}"
  by (simp add: normalizer_defs filtered_word_set_def)
lemma filtered_word_set_de: "filtered_word_set (ascii ''de'') = {}"
  by (simp add: normalizer_defs filtered_word_set_def)
lemma identity_candidate: "identity (candidate n) Nombre = n"
  by (simp add: candidate_def)
lemmas string_defs = ascii_def py_strip_def py_lower_def lower_cp_def isspace_def Let_def

text \<open>
  With the common words dropped and nothing else, the rule of claim C2 fails: the query
  \<open>de la\<close> matches the candidate \<open>de\<close>, whose words are all common words, with score
  1/2, although both filtered word sets are empty.
\<close>

theorem match_person_name_counterexample:
  "\<not> (match_person_name (ascii ''de la'') [candidate (ascii ''de'')] \<noteq> None
       \<longleftrightarrow> accepts filtered_word_set (ascii ''de la'') [candidate (ascii ''de'')])"
proof -
  have "match_person_name (ascii ''de la'') [candidate (ascii ''de'')] = Some 0"
    by (simp add: match_person_name_def identity_candidate normalize_de_la normalize_de
        word_set_de_la word_set_de Let_def)
      (simp add: string_defs)
  moreover have "\<not> accepts filtered_word_set (ascii ''de la'') [candidate (ascii ''de'')]"
    by (simp add: accepts_def best_score_def exact_match_def jaccard_def identity_candidate
        normalize_de_la normalize_de filtered_word_set_de_la filtered_word_set_de)
      (simp add: string_defs)
  ultimately show ?thesis by simp
qed

lemma normalize_Ana: "normalize_spanish_name (ascii ''Ana'') = ascii ''ana''"
  by (simp add: normalizer_defs)
lemma normalize_ana_maria_perez: "normalize_spanish_name ana_maria_perez = ascii ''ana maria perez''"
  by (simp add: normalizer_defs ana_maria_perez_def)
lemma word_set_ana: "word_set (ascii ''ana'') = {ascii ''ana''}"
  by (simp add: normalizer_defs)
lemma word_set_ana_maria_perez: "word_set (ascii ''ana maria perez'') = {ascii ''ana'', ascii ''maria'', ascii ''perez''}"
  by (simp add: normalizer_defs)

theorem match_person_name_iff_witness:
  "match_person_name (ascii ''Ana'') [candidate ana_maria_perez] \<noteq> None"
proof -
  have "accepts word_set (ascii ''Ana'') [candidate ana_maria_perez]"
    by (simp add: accepts_def best_score_def jaccard_def identity_candidate normalize_Ana normalize_ana_maria_perez word_set_ana word_set_ana_maria_perez) (simp add: ascii_def)
  then show ?thesis by (simp only: match_person_name_iff)
qed

section \<open>Slugs\<close>

lemma set_sub_space_runs: "set (sub_space_runs b s) \<subseteq> insert 95 (set s)"
  by (induction s arbitrary: b) auto

lemma simplify_question_no_dot: "46 \<notin> set (simplify_question question)"
proof
  assume "46 \<in> set (simplify_question question)"
  then obtain q3 where "46 \<in> set (py_lower (sub_space_runs False (filter (\<lambda>c. is_word_cp c \<or> isspace c) q3)))"
    by (auto simp: simplify_question_def Let_def split: if_splits)
  then obtain c where c: "c \<in> set (sub_space_runs False (filter (\<lambda>c. is_word_cp c \<or> isspace c) q3))"
      and l: "lower_cp c = 46"
    by (auto simp: py_lower_def)
  from l have "c = 46" by (auto simp: lower_cp_def split: if_splits)
  with c set_sub_space_runs [of False "filter (\<lambda>c. is_word_cp c \<or> isspace c) q3"]
  have "46 \<in> set (filter (\<lambda>c. is_word_cp c \<or> isspace c) q3)" by auto
  then show False by (simp add: is_word_cp_def isspace_def)
qed

text \<open>
  Claim C5 says that the slug of a long question carries an ellipsis marker. The
  source appends \<open>"..."\<close> after truncating and then removes every character that is
  neither a word character nor whitespace, the three dots among them: the slug of a
  question of 34 characters is the truncated text without any marker.
\<close>

theorem simplify_question_drops_ellipsis:
  "simplify_question (ascii ''What motivates you to apply today?'') = ascii ''what_motivates_you_to''"
  by (simp add: simplify_question_def emojis_def py_replace_def ascii_def py_strip_def isspace_def
      py_split_def is_word_cp_def py_lower_def lower_cp_def Let_def)

section \<open>Attendance statistics\<close>

lemma person_record_stats:
  "attended (stats (person_record course_name sessions person_name))
     = length (filter (\<lambda>s. s = ascii ''A'' \<or> s = ascii ''X'')
         (map snd (sessions_of (person_record course_name sessions person_name)))) \<and>
   justified (stats (person_record course_name sessions person_name))
     = length (filter (\<lambda>s. s = ascii ''J'')
         (map snd (sessions_of (person_record course_name sessions person_name)))) \<and>
   total_sessions (stats (person_record course_name sessions person_name)) = length sessions"
  by (simp add: person_record_def Let_def)

lemma shifted_header_cells: "table_cells (ascii ''| Session | Ana | Bob |'') = [ascii ''Session'', ascii ''Ana'', ascii ''Bob'']"
  by (simp add: table_cells_def py_split_on_def py_strip_def isspace_def ascii_def)

lemma shifted_row_table_cells: "table_cells (ascii ''| S1 |  | A |'') = [ascii ''S1'', ascii ''A'']"
  by (simp add: table_cells_def py_split_on_def py_strip_def isspace_def ascii_def)

lemma shifted_row_cells: "row_cells (ascii ''| S1 |  | A |'') = [[], ascii ''S1'', [], ascii ''A'', []]"
  by (simp add: row_cells_def py_split_on_def py_strip_def isspace_def ascii_def)

lemma shifted_row_strip: "py_strip (ascii ''| S1 |  | A |'') = ascii ''| S1 |  | A |''"
  by (simp add: py_strip_def isspace_def ascii_def)

lemma shifted_has_pipe: "has_pipe (ascii ''| Session | Ana | Bob |'')" "has_pipe (ascii ''| S1 |  | A |'')"
  by (simp_all add: has_pipe_def ascii_def)

lemma sessions_shifted:
  "read_sessions [ascii ''Session'', ascii ''Ana'', ascii ''Bob''] [ascii ''| S1 |  | A |''] []
     = [(ascii ''S1'', [(ascii ''Ana'', ascii ''A'')])]"
  by (simp add: shifted_row_strip shifted_has_pipe shifted_row_table_cells session_data_of_def Let_def) (simp add: ascii_def)

lemma shifted_course_name: "py_replace (ascii ''.md'') [] (basename (ascii ''./sources/attendance/intro.md'')) = ascii ''intro''"
  by (simp add: py_replace_def basename_def ascii_def)

text \<open>
  Claim C4 counts the statuses of a person's own column. The source drops the blank
  cells of a session row before it pairs the cells with the header, so a blank cell
  moves every later cell one column to the left: in the table below Ana's cell is
  blank and Bob's is \<open>A\<close>, and the source records \<open>A\<close> for Ana (attended 1, her
  column has 0) and nothing for Bob (attended 0, his column has 1).
\<close>

theorem parse_markdown_table_shifts_columns:
  "map_sum id (map (\<lambda>(name, r). (name, sessions_of r, attended (stats r))))
     (parse_markdown_table (ascii ''./sources/attendance/intro.md'') shifted_table)
   = Inr [(ascii ''Ana'', [(ascii ''S1'', ascii ''A'')], 1), (ascii ''Bob'', [], 0)] \<and>
   column_count {ascii ''A'', ascii ''X''} (drop 2 shifted_table) 2 = 0 \<and>
   column_count {ascii ''A'', ascii ''X''} (drop 2 shifted_table) 3 = 1"
proof (intro conjI)
  show "map_sum id (map (\<lambda>(name, r). (name, sessions_of r, attended (stats r))))
     (parse_markdown_table (ascii ''./sources/attendance/intro.md'') shifted_table)
   = Inr [(ascii ''Ana'', [(ascii ''S1'', ascii ''A'')], 1), (ascii ''Bob'', [], 0)]"
    by (simp add: parse_markdown_table_def shifted_table_def shifted_has_pipe shifted_header_cells sessions_shifted
        shifted_course_name person_record_def person_sessions_def Let_def del: read_sessions.simps)
      (simp add: ascii_def)
  show "column_count {ascii ''A'', ascii ''X''} (drop 2 shifted_table) 2 = 0"
    by (simp add: column_count_def shifted_table_def shifted_row_cells) (simp add: ascii_def)
  show "column_count {ascii ''A'', ascii ''X''} (drop 2 shifted_table) 3 = 1"
    by (simp add: column_count_def shifted_table_def shifted_row_cells)
qed
section \<open>The obfuscation utility\<close>

lemma length_digest: "length (digest w) = 32"
  by (simp add: digest_def)

lemma keystream_loop_length: "n \<le> length (keystream_loop h key temp keystream n)"
proof (induction h key temp keystream n rule: keystream_loop.induct)
  case (1 h key temp keystream n)
  show ?case
  proof (cases "length keystream < n")
    case True
    with 1 show ?thesis by (subst keystream_loop.simps) (simp add: Let_def)
  next
    case False
    then show ?thesis by (subst keystream_loop.simps) simp
  qed
qed

lemma make_keystream_length:
  "make_keystream h key name n = Inr ks \<Longrightarrow> length ks = n"
  using keystream_loop_length
  by (auto simp: make_keystream_def Let_def split: sum.splits)

lemma unat_byte_of: "n < 256 \<Longrightarrow> unat (byte_of n) = n"
  by (simp add: byte_of_def unat_of_nat)

lemma utf8_decode_one:
  assumes "unat b0 < 128"
  shows "utf8_decode (b0 # rest)
     = (case utf8_decode rest of Inl e \<Rightarrow> Inl e | Inr cs \<Rightarrow> Inr (unat b0 # cs))"
  using assms by (simp add: Let_def)

lemma utf8_decode_two:
  assumes "194 \<le> unat b0" "unat b0 \<le> 223" "continuation b1"
  shows "utf8_decode (b0 # b1 # rest)
     = (case utf8_decode rest of Inl e \<Rightarrow> Inl e
        | Inr cs \<Rightarrow> Inr (((unat b0 - 192) * 64 + (unat b1 - 128)) # cs))"
  using assms by (simp add: Let_def)

lemma utf8_decode_three:
  assumes "224 \<le> unat b0" "unat b0 \<le> 239" "continuation b1" "continuation b2"
    and "2048 \<le> (unat b0 - 224) * 4096 + (unat b1 - 128) * 64 + (unat b2 - 128)"
    and "\<not> (55296 \<le> (unat b0 - 224) * 4096 + (unat b1 - 128) * 64 + (unat b2 - 128) \<and>
            (unat b0 - 224) * 4096 + (unat b1 - 128) * 64 + (unat b2 - 128) \<le> 57343)"
  shows "utf8_decode (b0 # b1 # b2 # rest)
     = (case utf8_decode rest of Inl e \<Rightarrow> Inl e
        | Inr cs \<Rightarrow>
            Inr (((unat b0 - 224) * 4096 + (unat b1 - 128) * 64 + (unat b2 - 128)) # cs))"
proof -
  have n: "\<not> unat b0 < 128" "\<not> (194 \<le> unat b0 \<and> unat b0 \<le> 223)"
    using assms(1) by simp_all
  show ?thesis
    by (subst utf8_decode.simps)
      (simp only: Let_def n if_False assms simp_thms if_True list.case)
qed

lemma utf8_decode_four:
  assumes "240 \<le> unat b0" "unat b0 \<le> 244" "continuation b1" "continuation b2"
      "continuation b3"
    and "65536 \<le> (unat b0 - 240) * 262144 + (unat b1 - 128) * 4096 + (unat b2 - 128) * 64
                 + (unat b3 - 128)"
    and "(unat b0 - 240) * 262144 + (unat b1 - 128) * 4096 + (unat b2 - 128) * 64
           + (unat b3 - 128) < 1114112"
  shows "utf8_decode (b0 # b1 # b2 # b3 # rest)
     = (case utf8_decode rest of Inl e \<Rightarrow> Inl e
        | Inr cs \<Rightarrow>
            Inr (((unat b0 - 240) * 262144 + (unat b1 - 128) * 4096 + (unat b2 - 128) * 64
                   + (unat b3 - 128)) # cs))"
proof -
  have n: "\<not> unat b0 < 128" "\<not> (194 \<le> unat b0 \<and> unat b0 \<le> 223)"
      "\<not> (224 \<le> unat b0 \<and> unat b0 \<le> 239)"
    using assms(1) by simp_all
  show ?thesis
    by (subst utf8_decode.simps)
      (simp only: Let_def n if_False assms simp_thms if_True list.case)
qed

lemma split64: "(c::nat) div 64 * 64 + c mod 64 = c"
  by simp

lemma split4096: "(c::nat) div 4096 * 4096 + c div 64 mod 64 * 64 + c mod 64 = c"
proof -
  have d: "c div 4096 = c div 64 div 64" by (simp add: div_mult2_eq)
  have "c div 64 div 64 * 4096 = c div 64 div 64 * 64 * 64" by simp
  then have "c div 4096 * 4096 + c div 64 mod 64 * 64 + c mod 64
      = (c div 64 div 64 * 64 + c div 64 mod 64) * 64 + c mod 64"
    unfolding d add_mult_distrib by (rule arg_cong2 [where f = "(+)", OF arg_cong2 [where f = "(+)"]]) simp_all
  also have "\<dots> = c div 64 * 64 + c mod 64" by (simp only: split64)
  also have "\<dots> = c" by (rule split64)
  finally show ?thesis .
qed

lemma split262144:
  "(c::nat) div 262144 * 262144 + c div 4096 mod 64 * 4096 + c div 64 mod 64 * 64 + c mod 64 = c"
proof -
  have d: "c div 262144 = c div 4096 div 64" by (simp add: div_mult2_eq)
  have "c div 4096 div 64 * 262144 = c div 4096 div 64 * 64 * 4096" by simp
  then have "c div 262144 * 262144 + c div 4096 mod 64 * 4096
      = (c div 4096 div 64 * 64 + c div 4096 mod 64) * 4096"
    unfolding d add_mult_distrib by simp
  also have "\<dots> = c div 4096 * 4096" by (simp only: split64)
  finally have "c div 262144 * 262144 + c div 4096 mod 64 * 4096 = c div 4096 * 4096" .
  then show ?thesis by (simp only: split4096)
qed

lemma decode_encode_cp:
  assumes "encode_cp c = Inr bs"
  shows "utf8_decode (bs @ rest)
     = (case utf8_decode rest of Inl e \<Rightarrow> Inl e | Inr cs \<Rightarrow> Inr (c # cs))"
proof -
  consider (one) "c < 128" | (two) "128 \<le> c" "c < 2048"
    | (three) "2048 \<le> c" "c < 65536" "\<not> (55296 \<le> c \<and> c \<le> 57343)"
    | (four) "65536 \<le> c" "c < 1114112"
    using assms by (auto simp: encode_cp_def split: if_splits)
  then show ?thesis
  proof cases
    case one
    then have bs: "bs = [byte_of c]" using assms by (simp add: encode_cp_def)
    have b0: "unat (byte_of c) = c" using one by (intro unat_byte_of) simp
    with one have "unat (byte_of c) < 128" by simp
    from utf8_decode_one [OF this, of rest] show ?thesis unfolding bs b0 by simp
  next
    case two
    then have bs: "bs = [byte_of (192 + c div 64), byte_of (128 + c mod 64)]"
      using assms by (simp add: encode_cp_def)
    have x: "c div 64 < 32" using two by (intro less_mult_imp_div_less) simp
    have x2: "2 \<le> c div 64" using div_le_mono [OF two(1), of 64] by simp
    have b0: "unat (byte_of (192 + c div 64)) = 192 + c div 64"
      using x by (intro unat_byte_of) simp
    have b1: "unat (byte_of (128 + c mod 64)) = 128 + c mod 64"
      by (intro unat_byte_of) simp
    have v: "(192 + c div 64 - 192) * 64 + (128 + c mod 64 - 128) = c" by simp
    have "utf8_decode (byte_of (192 + c div 64) # byte_of (128 + c mod 64) # rest)
      = (case utf8_decode rest of Inl e \<Rightarrow> Inl e
         | Inr cs \<Rightarrow> Inr (((unat (byte_of (192 + c div 64)) - 192) * 64
                            + (unat (byte_of (128 + c mod 64)) - 128)) # cs))"
      using x x2 by (intro utf8_decode_two) (simp_all add: continuation_def b0 b1)
    then show ?thesis unfolding bs b0 b1 v by simp
  next
    case three
    have if3: "\<And>a b. (if 55296 \<le> c \<and> c \<le> 57343 then a else b) = (b :: error + byte list)"
      using three(3) by auto
    have bs: "bs = [byte_of (224 + c div 4096), byte_of (128 + c div 64 mod 64),
                   byte_of (128 + c mod 64)]"
      using assms three(1,2) by (simp add: encode_cp_def if3)
    have x: "c div 4096 < 16" using three by (intro less_mult_imp_div_less) simp
    have b0: "unat (byte_of (224 + c div 4096)) = 224 + c div 4096"
      using x by (intro unat_byte_of) simp
    have b1: "unat (byte_of (128 + c div 64 mod 64)) = 128 + c div 64 mod 64"
      by (intro unat_byte_of) simp
    have b2: "unat (byte_of (128 + c mod 64)) = 128 + c mod 64"
      by (intro unat_byte_of) simp
    have v: "(224 + c div 4096 - 224) * 4096 + (128 + c div 64 mod 64 - 128) * 64
         + (128 + c mod 64 - 128) = c"
      using split4096 [of c] by simp
    have "utf8_decode (byte_of (224 + c div 4096) # byte_of (128 + c div 64 mod 64)
            # byte_of (128 + c mod 64) # rest)
      = (case utf8_decode rest of Inl e \<Rightarrow> Inl e
         | Inr cs \<Rightarrow> Inr (((unat (byte_of (224 + c div 4096)) - 224) * 4096
                            + (unat (byte_of (128 + c div 64 mod 64)) - 128) * 64
                            + (unat (byte_of (128 + c mod 64)) - 128)) # cs))"
      using x three by (intro utf8_decode_three) (simp_all only: continuation_def b0 b1 b2 v, simp_all)
    then show ?thesis unfolding bs b0 b1 b2 v by simp
  next
    case four
    then have bs: "bs = [byte_of (240 + c div 262144), byte_of (128 + c div 4096 mod 64),
             byte_of (128 + c div 64 mod 64), byte_of (128 + c mod 64)]"
      using assms by (simp add: encode_cp_def)
    have x: "c div 262144 < 5" using four by (intro less_mult_imp_div_less) simp
    have b0: "unat (byte_of (240 + c div 262144)) = 240 + c div 262144"
      using x by (intro unat_byte_of) simp
    have b1: "unat (byte_of (128 + c div 4096 mod 64)) = 128 + c div 4096 mod 64"
      by (intro unat_byte_of) simp
    have b2: "unat (byte_of (128 + c div 64 mod 64)) = 128 + c div 64 mod 64"
      by (intro unat_byte_of) simp
    have b3: "unat (byte_of (128 + c mod 64)) = 128 + c mod 64"
      by (intro unat_byte_of) simp
    have v: "(240 + c div 262144 - 240) * 262144 + (128 + c div 4096 mod 64 - 128) * 4096
         + (128 + c div 64 mod 64 - 128) * 64 + (128 + c mod 64 - 128) = c"
      using split262144 [of c] by simp
    have "utf8_decode (byte_of (240 + c div 262144) # byte_of (128 + c div 4096 mod 64)
            # byte_of (128 + c div 64 mod 64) # byte_of (128 + c mod 64) # rest)
      = (case utf8_decode rest of Inl e \<Rightarrow> Inl e
         | Inr cs \<Rightarrow> Inr (((unat (byte_of (240 + c div 262144)) - 240) * 262144
                            + (unat (byte_of (128 + c div 4096 mod 64)) - 128) * 4096
                            + (unat (byte_of (128 + c div 64 mod 64)) - 128) * 64
                            + (unat (byte_of (128 + c mod 64)) - 128)) # cs))"
      using x four by (intro utf8_decode_four) (simp_all only: continuation_def b0 b1 b2 b3 v, simp_all)
    then show ?thesis unfolding bs b0 b1 b2 b3 v by simp
  qed
qed

lemma utf8_roundtrip: "utf8_encode s = Inr bs \<Longrightarrow> utf8_decode bs = Inr s"
proof (induction s arbitrary: bs)
  case Nil
  then show ?case by simp
next
  case (Cons c cs)
  then obtain b rest where b: "encode_cp c = Inr b" and rest: "utf8_encode cs = Inr rest"
      and bs: "bs = b @ rest"
    by (auto split: sum.splits)
  from Cons.IH [OF rest] have "utf8_decode rest = Inr cs" .
  with decode_encode_cp [OF b, of rest] bs show ?case by simp
qed

lemma encode_cp_ok:
  "c < 1114112 \<and> \<not> (55296 \<le> c \<and> c \<le> 57343) \<Longrightarrow> \<exists>bs. encode_cp c = Inr bs \<and> length bs \<le> 4"
  by (auto simp: encode_cp_def)

lemma utf8_encode_ok: "encodable s \<Longrightarrow> \<exists>bs. utf8_encode s = Inr bs \<and> length bs \<le> 4 * length s"
proof (induction s)
  case Nil
  show ?case by simp
next
  case (Cons c cs)
  then obtain rest where rest: "utf8_encode cs = Inr rest" "length rest \<le> 4 * length cs"
    by (auto simp: encodable_def)
  from Cons.prems obtain b where "encode_cp c = Inr b" "length b \<le> 4"
    using encode_cp_ok [of c] by (auto simp: encodable_def)
  with rest show ?case by simp
qed

lemma length_be_bytes: "length (be_bytes k n) = k"
  by (induction k arbitrary: n) simp_all

lemma from_bytes_snoc: "from_bytes (bs @ [b]) = from_bytes bs * 256 + unat b"
  by (simp add: from_bytes_def)

lemma from_be_bytes: "from_bytes (be_bytes k n) = n mod 256 ^ k"
proof (induction k arbitrary: n)
  case 0
  show ?case by (simp add: from_bytes_def)
next
  case (Suc k)
  have "unat (byte_of (n mod 256)) = n mod 256" by (intro unat_byte_of) simp
  then have "from_bytes (be_bytes (Suc k) n) = (n div 256) mod 256 ^ k * 256 + n mod 256"
    by (simp add: from_bytes_snoc Suc.IH)
  also have "\<dots> = n mod 256 ^ Suc k"
    by (simp add: mod_mult2_eq mult.commute)
  finally show ?case .
qed

lemma to_bytes_roundtrip: "to_bytes k n = Inr bs \<Longrightarrow> from_bytes bs = n \<and> length bs = k"
  by (auto simp: to_bytes_def from_be_bytes length_be_bytes split: if_splits)

lemma xor_twice:
  "length ks = length ps \<Longrightarrow>
   map (\<lambda>(e, k). e XOR k) (zip (map (\<lambda>(p, k). p XOR k) (zip ps ks)) ks) = (ps :: byte list)"
proof (induction ps ks rule: list_induct2')
  case (4 p ps k ks)
  then show ?case by (simp add: xor.assoc)
qed simp_all

text \<open>
  Claim C10. Whatever \<open>encrypt_file\<close> writes, \<open>decrypt_file\<close> with the same passphrase
  turns back into the original content, for every content, file name and passphrase
  and whatever the hash functions are; and \<open>encrypt_file\<close> does write a file when the
  file name and the passphrase can be encoded as UTF-8 and the name is not
  astronomically long.
\<close>

theorem encrypt_decrypt_roundtrip:
  "(encrypt_file h input_file plaintext passphrase = Inr out \<longrightarrow>
      decrypt_file h out passphrase = Inr plaintext) \<and>
   (encodable (basename input_file) \<and> encodable passphrase \<and>
      4 * length (basename input_file) < 256 ^ 16 \<longrightarrow>
      (\<exists>written. encrypt_file h input_file plaintext passphrase = Inr written))"
proof (intro conjI impI)
  assume enc: "encrypt_file h input_file plaintext passphrase = Inr out"
  let ?name = "basename input_file"
  from enc obtain key ks fb flen where
      key: "derive_key h passphrase = Inr key"
      and ks: "make_keystream h key ?name (length plaintext) = Inr ks"
      and fb: "utf8_encode ?name = Inr fb"
      and flen: "to_bytes 16 (length fb) = Inr flen"
      and out: "out = flen @ fb @ map (\<lambda>(p, k). p XOR k) (zip plaintext ks)"
    by (auto simp: encrypt_file_def Let_def split: sum.splits)
  from ks have lks: "length ks = length plaintext" by (rule make_keystream_length)
  from flen have fl: "from_bytes flen = length fb" "length flen = 16"
    using to_bytes_roundtrip by blast+
  from fb have dec: "utf8_decode fb = Inr ?name" by (rule utf8_roundtrip)
  have t: "take 16 out = flen" "drop 16 out = fb @ map (\<lambda>(p, k). p XOR k) (zip plaintext ks)"
    using fl(2) by (simp_all add: out)
  show "decrypt_file h out passphrase = Inr plaintext"
    unfolding decrypt_file_def t fl(1)
    by (simp add: Let_def dec key lks ks xor_twice)
next
  assume a: "encodable (basename input_file) \<and> encodable passphrase \<and>
      4 * length (basename input_file) < 256 ^ 16"
  let ?name = "basename input_file"
  have salt: "encodable (ascii ''crmsaltissaltyyes'')" by (simp add: encodable_def ascii_def)
  have nonce: "encodable (?name @ ascii ''nonce'')"
    using a by (simp add: encodable_def ascii_def)
  from utf8_encode_ok [OF salt] utf8_encode_ok [of passphrase] a
  obtain key where key: "derive_key h passphrase = Inr key"
    by (auto simp: derive_key_def)
  from utf8_encode_ok [OF nonce]
  obtain ks where ks: "make_keystream h key ?name (length plaintext) = Inr ks"
    by (auto simp: make_keystream_def Let_def)
  from utf8_encode_ok [of ?name] a
  obtain fb where fb: "utf8_encode ?name = Inr fb" "length fb \<le> 4 * length ?name" by auto
  with a have "length fb < 256 ^ 16" by linarith
  then obtain flen where "to_bytes 16 (length fb) = Inr flen" by (simp add: to_bytes_def)
  with key ks fb show "\<exists>written. encrypt_file h input_file plaintext passphrase = Inr written"
    by (simp add: encrypt_file_def Let_def)
qed

theorem encrypt_decrypt_roundtrip_witness:
  "\<exists>written. encrypt_file toy_hashlib (ascii ''notes/a.txt'') [1, 2, 3] (ascii ''pw'') = Inr written \<and>
     decrypt_file toy_hashlib written (ascii ''pw'') = Inr [1, 2, 3]"
proof -
  have "encodable (basename (ascii ''notes/a.txt'')) \<and> encodable (ascii ''pw'') \<and>
      4 * length (basename (ascii ''notes/a.txt'')) < 256 ^ 16"
    by (simp add: encodable_def basename_def ascii_def)
  with encrypt_decrypt_roundtrip [of toy_hashlib "ascii ''notes/a.txt''" "[1, 2, 3]" "ascii ''pw''"]
  obtain written where
    w: "encrypt_file toy_hashlib (ascii ''notes/a.txt'') [1, 2, 3] (ascii ''pw'') = Inr written"
    by blast
  with encrypt_decrypt_roundtrip
    [of toy_hashlib "ascii ''notes/a.txt''" "[1, 2, 3]" "ascii ''pw''" written]
  have "decrypt_file toy_hashlib written (ascii ''pw'') = Inr [1, 2, 3]" by blast
  with w show ?thesis by blast
qed


end
